theory Spec2Isabelle
  imports Main
begin

section \<open>FIRRTL types\<close>

text \<open>
  Modelled from the spec: the FIRRTL type declarations (\<^verbatim>\<open>FIRRTLTypes\<close>) are not among the
  sources of \<^verbatim>\<open>LowerTypes.cpp\<close>.  A type is a ground type (clock, resets, signed and
  unsigned integers and analog wires, the last three with a width that may still be
  unknown), a bundle of named fields, each with a flip marker, or a vector of a fixed
  number of elements of one type.
\<close>

datatype 'a BundleElement =
  BundleElement (name: string) (isFlip: bool) (elt_type: 'a)

datatype FIRRTLType =
    ClockType
  | ResetType
  | AsyncResetType
  | SIntType "nat option"
  | UIntType "nat option"
  | AnalogType "nat option"
  | BundleType "FIRRTLType BundleElement list"
  | FVectorType FIRRTLType nat

lemma size_elt_type [termination_simp]:
  "e \<in> set es \<Longrightarrow> size (elt_type e) < Suc (size_list (size_BundleElement size) es)"
  by (induction es) (auto simp: less_Suc_eq_le le_SucI BundleElement.size(2) split: BundleElement.splits
      intro: le_trans, (cases e; simp)+)

text \<open>\<^verbatim>\<open>FIRRTLType::isGround\<close>: neither a bundle nor a vector.\<close>

fun isGround :: "FIRRTLType \<Rightarrow> bool" where
  "isGround (BundleType es) = False"
| "isGround (FVectorType t n) = False"
| "isGround _ = True"

text \<open>
  Modelled from the spec: \<^verbatim>\<open>firrtl::getBitWidth\<close> on a ground type, the only types
  \<^verbatim>\<open>hasZeroBitWidth\<close> passes to it.  Clock and resets are one bit wide; an integer or
  analog type has its declared width, or none while the width is not inferred.
\<close>

fun getBitWidth :: "FIRRTLType \<Rightarrow> nat option" where
  "getBitWidth ClockType = Some 1"
| "getBitWidth ResetType = Some 1"
| "getBitWidth AsyncResetType = Some 1"
| "getBitWidth (SIntType w) = w"
| "getBitWidth (UIntType w) = w"
| "getBitWidth (AnalogType w) = w"
| "getBitWidth _ = None"

definition getValueOr :: "'a option \<Rightarrow> 'a \<Rightarrow> 'a" where
  "getValueOr x d = (case x of None \<Rightarrow> d | Some v \<Rightarrow> v)"

text \<open>
  Modelled from the spec: \<^verbatim>\<open>isPassive\<close> (no flipped field anywhere inside) and
  \<^verbatim>\<open>containsAnalog\<close> (an analog leaf somewhere inside) are methods of the absent type
  declarations.
\<close>

fun isPassive :: "FIRRTLType \<Rightarrow> bool" where
  "isPassive (BundleType es) = list_all (\<lambda>e. \<not> isFlip e \<and> isPassive (elt_type e)) es"
| "isPassive (FVectorType t n) = isPassive t"
| "isPassive _ = True"

fun containsAnalog :: "FIRRTLType \<Rightarrow> bool" where
  "containsAnalog (AnalogType w) = True"
| "containsAnalog (BundleType es) = list_ex (\<lambda>e. containsAnalog (elt_type e)) es"
| "containsAnalog (FVectorType t n) = containsAnalog t"
| "containsAnalog _ = False"

text \<open>
  Modelled from the spec: field IDs enumerate the nodes of a type densely; 0 is the whole
  value, the first element has ID 1, and each element is followed by the IDs of
  everything nested in it.
\<close>

fun getMaxFieldID :: "FIRRTLType \<Rightarrow> nat" where
  "getMaxFieldID (BundleType es) = sum_list (map (\<lambda>e. Suc (getMaxFieldID (elt_type e))) es)"
| "getMaxFieldID (FVectorType t n) = n * Suc (getMaxFieldID t)"
| "getMaxFieldID _ = 0"

fun getNumElements :: "FIRRTLType \<Rightarrow> nat" where
  "getNumElements (BundleType es) = length es"
| "getNumElements (FVectorType t n) = n"
| "getNumElements _ = 0"

fun getFieldID :: "FIRRTLType \<Rightarrow> nat \<Rightarrow> nat" where
  "getFieldID (BundleType es) i =
     Suc (sum_list (map (\<lambda>e. Suc (getMaxFieldID (elt_type e))) (take i es)))"
| "getFieldID (FVectorType t n) i = Suc (i * Suc (getMaxFieldID t))"
| "getFieldID _ i = 0"

section \<open>Zero width, preservable aggregates and the type peeler\<close>

text \<open>
  \<^verbatim>\<open>hasZeroBitWidth\<close>: the loop over a bundle returns true at the first element that
  has zero bit-width, and otherwise whether the bundle has no elements.
\<close>

fun hasZeroBitWidth :: "FIRRTLType \<Rightarrow> bool" where
  "hasZeroBitWidth (BundleType es) =
     (list_ex (\<lambda>e. hasZeroBitWidth (elt_type e)) es \<or> length es = 0)"
| "hasZeroBitWidth (FVectorType t n) = (if n = 0 then True else hasZeroBitWidth t)"
| "hasZeroBitWidth groundType = (getValueOr (getBitWidth groundType) 0 = 0)"

definition isPreservableAggregateType :: "FIRRTLType \<Rightarrow> bool" where
  "isPreservableAggregateType firrtlType \<longleftrightarrow>
     isPassive firrtlType \<and> \<not> containsAnalog firrtlType \<and> \<not> hasZeroBitWidth firrtlType"

record FlatBundleFieldEntry =
  ftype :: FIRRTLType
  index :: nat
  fieldID :: nat
  suffix :: string
  isOutput :: bool

text \<open>\<^verbatim>\<open>std::to_string\<close> of an index: its decimal digits.\<close>

fun to_string :: "nat \<Rightarrow> string" where
  "to_string n =
     (if n < 10 then [''0123456789'' ! n]
      else to_string (n div 10) @ [''0123456789'' ! (n mod 10)])"

declare to_string.simps [simp del]

text \<open>
  \<^verbatim>\<open>peelType\<close>: \<open>None\<close> is the return value false (nothing was peeled), \<open>Some fields\<close> is
  true together with the entries appended to the caller's empty vector.
\<close>

definition peelType :: "FIRRTLType \<Rightarrow> bool \<Rightarrow> FlatBundleFieldEntry list option" where
  "peelType ty allowedToPreserveAggregate =
     (if allowedToPreserveAggregate \<and> isPreservableAggregateType ty then None
      else case ty of
        BundleType es \<Rightarrow>
          Some (map (\<lambda>i. \<lparr>ftype = elt_type (es ! i), index = i, fieldID = getFieldID ty i,
                          suffix = CHR ''_'' # name (es ! i), isOutput = isFlip (es ! i)\<rparr>)
                    [0..<length es])
      | FVectorType t n \<Rightarrow>
          Some (map (\<lambda>i. \<lparr>ftype = t, index = i, fieldID = getFieldID ty i,
                          suffix = ''_'' @ to_string i, isOutput = False\<rparr>)
                    [0..<n])
      | _ \<Rightarrow> None)"

text \<open>The two switches of the pass, and what the port policy reads of a module.\<close>

record TypeLoweringVisitor =
  preserveAggregate :: bool
  preservePublicTypes :: bool

record FModuleLike =
  isFExtModuleOp :: bool
  isPublic :: bool

definition isModuleAllowedToPreserveAggregate :: "TypeLoweringVisitor \<Rightarrow> FModuleLike \<Rightarrow> bool" where
  "isModuleAllowedToPreserveAggregate v m =
     (if \<not> preserveAggregate v then False
      else if \<not> preservePublicTypes v then True
      else if isFExtModuleOp m then False
      else \<not> isPublic m)"


text \<open>
  The reading of "zero bit-width" that follows the words of the specification: every leaf
  reached through the elements of the type has zero width, or the type itself has no
  elements.
\<close>

fun leaves :: "FIRRTLType \<Rightarrow> FIRRTLType list" where
  "leaves (BundleType es) = concat (map (\<lambda>e. leaves (elt_type e)) es)"
| "leaves (FVectorType t n) = concat (replicate n (leaves t))"
| "leaves groundType = [groundType]"

definition spec_hasZeroBitWidth :: "FIRRTLType \<Rightarrow> bool" where
  "spec_hasZeroBitWidth T \<longleftrightarrow>
     list_all (\<lambda>l. getValueOr (getBitWidth l) 0 = 0) (leaves T) \<or> getNumElements T = 0"

text \<open>
  The components of a type: the type itself and everything reached through its elements.
  A ground component has zero width when its width is zero (or unknown, which the
  recognizer counts as zero); an aggregate component when it has no elements.
\<close>

fun components :: "FIRRTLType \<Rightarrow> FIRRTLType list" where
  "components (BundleType es) = BundleType es # concat (map (\<lambda>e. components (elt_type e)) es)"
| "components (FVectorType t n) = FVectorType t n # concat (replicate n (components t))"
| "components groundType = [groundType]"

definition zeroWidthComponent :: "FIRRTLType \<Rightarrow> bool" where
  "zeroWidthComponent c =
     (if isGround c then getValueOr (getBitWidth c) 0 = 0 else getNumElements c = 0)"

section \<open>Annotations\<close>

text \<open>
  Modelled from the spec: the attribute and annotation classes (\<^verbatim>\<open>Attribute\<close>,
  \<^verbatim>\<open>DictionaryAttr\<close>, \<^verbatim>\<open>Annotation\<close>) are not among the sources.  An annotation is a
  dictionary from member names to attributes; an integer attribute has a bit width, at
  most 64, and its value as a signed number of that width (\<^verbatim>\<open>getInt\<close>; the value read
  zero-extended, \<^verbatim>\<open>getZExtValue\<close>, is the value modulo two to the width); an inner
  reference names a module and a symbol inside it; and \<^verbatim>\<open>getAs\<close> of a kind answers only
  for a member of that kind.
\<close>

datatype Attribute =
    IntegerAttr nat int
  | StringAttr string
  | FlatSymbolRefAttr string
  | InnerRefAttr string string

type_synonym DictionaryAttr = "string \<rightharpoonup> Attribute"

definition getClass :: "DictionaryAttr \<Rightarrow> string" where
  "getClass anno = (case anno ''class'' of Some (StringAttr c) \<Rightarrow> c | _ \<Rightarrow> [])"

definition getIntegerMember :: "DictionaryAttr \<Rightarrow> string \<Rightarrow> (nat \<times> int) option" where
  "getIntegerMember anno key = (case anno key of Some (IntegerAttr w v) \<Rightarrow> Some (w, v) | _ \<Rightarrow> None)"

definition hasSymbolMember :: "DictionaryAttr \<Rightarrow> string \<Rightarrow> bool" where
  "hasSymbolMember anno key = (case anno key of Some (FlatSymbolRefAttr s) \<Rightarrow> True | _ \<Rightarrow> False)"

definition removeMember :: "DictionaryAttr \<Rightarrow> string \<Rightarrow> DictionaryAttr" where
  "removeMember anno key = anno(key := None)"

definition setMember :: "DictionaryAttr \<Rightarrow> string \<Rightarrow> Attribute \<Rightarrow> DictionaryAttr" where
  "setMember anno key v = anno(key \<mapsto> v)"

text \<open>
  The field ID of a flat field entry and the greatest field ID of a type are \<^verbatim>\<open>unsigned\<close>
  numbers of 32 bits in the source: \<open>fieldLow\<close> is the field ID of the entry as such a
  number and \<open>fieldHigh\<close> the sum \<^verbatim>\<open>field.fieldID + field.type.getMaxFieldID()\<close>, which wraps
  around at \<open>2^32\<close>.  \<open>toInt32\<close> is the conversion of a 64-bit number to the \<^verbatim>\<open>int32_t\<close>
  that \<^verbatim>\<open>getI32IntegerAttr\<close> takes.
\<close>

definition fieldLow :: "FlatBundleFieldEntry \<Rightarrow> nat" where
  "fieldLow field = fieldID field mod 2 ^ 32"

definition fieldHigh :: "FlatBundleFieldEntry \<Rightarrow> nat" where
  "fieldHigh field = (fieldID field + getMaxFieldID (ftype field)) mod 2 ^ 32"

definition toInt32 :: "int \<Rightarrow> int" where
  "toInt32 x = (x + 2 ^ 31) mod 2 ^ 32 - 2 ^ 31"

text \<open>
  \<^verbatim>\<open>updateAnnotationFieldID\<close> adds the field ID of the lowered field to the \<^verbatim>\<open>fieldID\<close>
  member of the one class of annotations that tracks it.  The parameter \<^verbatim>\<open>fieldID\<close> is
  \<^verbatim>\<open>unsigned\<close>; the existing value is read zero-extended and added into it, so the sum
  wraps around at \<open>2^32\<close>; the new member is an integer attribute of 64 bits.
\<close>

definition isAnnotationSensitiveToFieldID :: "DictionaryAttr \<Rightarrow> bool" where
  "isAnnotationSensitiveToFieldID anno \<longleftrightarrow>
     getClass anno = ''sifive.enterprise.grandcentral.SignalDriverAnnotation''"

definition updateAnnotationFieldID :: "DictionaryAttr \<Rightarrow> nat \<Rightarrow> DictionaryAttr" where
  "updateAnnotationFieldID attr fieldID' =
     (if fieldID' mod 2 ^ 32 = 0 then attr
      else if \<not> isAnnotationSensitiveToFieldID attr then attr
      else setMember attr ''fieldID''
             (IntegerAttr 64 (int (case getIntegerMember attr ''fieldID'' of
                 Some (w, v) \<Rightarrow> (fieldID' mod 2 ^ 32 + nat (v mod 2 ^ w)) mod 2 ^ 32
               | None \<Rightarrow> fieldID' mod 2 ^ 32))))"

text \<open>
  \<^verbatim>\<open>filterAnnotations\<close>: \<open>filterAnnotation\<close> is the body of its loop over the annotations of
  the lowered value, on the list kept so far and the flag \<^verbatim>\<open>needsSym\<close>, which the callers
  pass in as false and read back.  The parameters \<^verbatim>\<open>srcType\<close> and \<^verbatim>\<open>sym\<close> are not used
  by the function and are left out.  The field ID of the annotation is read as a signed
  64-bit number (\<^verbatim>\<open>getInt\<close>) and compared as such with the two unsigned bounds.
\<close>

definition filterAnnotation ::
  "FlatBundleFieldEntry \<Rightarrow> DictionaryAttr list \<times> bool \<Rightarrow> DictionaryAttr \<Rightarrow> DictionaryAttr list \<times> bool" where
  "filterAnnotation field st opAttr =
     (let (retval, needsSym) = st;
          isGroundType = isGround (ftype field);
          maybeFieldID = map_option snd (getIntegerMember opAttr ''circt.fieldID'');
          annotation = (if maybeFieldID = None then opAttr else removeMember opAttr ''circt.fieldID'')
      in case maybeFieldID of
           None \<Rightarrow> (retval @ [updateAnnotationFieldID opAttr (fieldID field)], needsSym)
         | Some fieldID' \<Rightarrow>
             if fieldID' \<noteq> 0 \<and>
                \<not> (fieldID' \<ge> int (fieldLow field) \<and> fieldID' \<le> int (fieldHigh field))
             then (retval, needsSym)
             else if fieldID' = 0 then (retval @ [annotation], needsSym)
             else if fieldID' - int (fieldLow field) \<noteq> 0
             then (retval @ [setMember annotation ''circt.fieldID''
                               (IntegerAttr 32 (toInt32 (fieldID' - int (fieldLow field))))], needsSym)
             else if getClass opAttr = ''firrtl.transforms.DontTouchAnnotation''
             then (retval, True)
             else (retval @ [annotation],
                   isGroundType \<and> hasSymbolMember annotation ''circt.nonlocal''))"

definition filterAnnotations ::
  "DictionaryAttr list \<Rightarrow> FlatBundleFieldEntry \<Rightarrow> bool \<Rightarrow> DictionaryAttr list \<times> bool" where
  "filterAnnotations annotations field needsSym =
     (if annotations = [] then ([], needsSym)
      else foldl (filterAnnotation field) ([], needsSym) annotations)"


section \<open>Hierarchical paths\<close>

text \<open>
  Modelled from the spec: the hierarchical path operation, the table of paths
  (\<^verbatim>\<open>NLATable\<close>), the symbol table of the circuit, the name allocator (\<^verbatim>\<open>Namespace\<close>) and
  the annotation sets of operations and ports are not among the sources.  A path has a
  symbol name and a sequence of references; a target of a renaming is an operation or a
  port, given here with the module and the symbol the update reads from it and a number
  that tells targets apart.  The circuit is what the update reads and writes: the table of
  paths, the symbol table, the names the allocator has handed out or found in use, and the
  annotations of every target.
\<close>

record HierPathOp =
  sym_name :: string
  namepath :: "Attribute list"

datatype AnnoTarget =
    OpAnnoTarget (target_module: string) (target_sym: string) (target_id: nat)
  | PortAnnoTarget (target_module: string) (target_sym: string) (target_id: nat)

datatype SymbolOp = PathSymbol HierPathOp | OtherSymbol

record Circuit =
  nlaTable :: "HierPathOp list"
  symTbl :: "(string \<times> SymbolOp) list"
  circtNamespace :: "string list"
  annotations :: "AnnoTarget \<Rightarrow> DictionaryAttr list"

text \<open>
  The allocator returns the name asked for if it is not in use, and otherwise the name
  with the first numeric suffix that is not in use; it records the name it returns.
  Among the suffixes up to the number of names in use one is always free (lemma
  \<open>find_candidate\<close> below), so the last case is never reached.
\<close>

definition newName :: "string list \<Rightarrow> string \<Rightarrow> string \<times> string list" where
  "newName ns base =
     (if base \<notin> set ns then (base, base # ns)
      else case find (\<lambda>c. c \<notin> set ns)
                  (map (\<lambda>i. base @ ''_'' @ to_string i) [0..<Suc (length ns)]) of
             Some c \<Rightarrow> (c, c # ns)
           | None \<Rightarrow> (base, ns))"

text \<open>
  \<^verbatim>\<open>lookup\<close>: the paths that pass through a module.  \<^verbatim>\<open>erase\<close> removes a path from the
  table of paths and its name from the symbol table; \<^verbatim>\<open>addNLA\<close> and the symbol table's
  \<^verbatim>\<open>insert\<close> add one.
\<close>

fun path_module :: "Attribute \<Rightarrow> string option" where
  "path_module (InnerRefAttr m n) = Some m"
| "path_module (FlatSymbolRefAttr m) = Some m"
| "path_module _ = None"

definition lookup :: "HierPathOp list \<Rightarrow> string \<Rightarrow> HierPathOp list" where
  "lookup tbl m = filter (\<lambda>p. Some m \<in> set (map path_module (namepath p))) tbl"

definition erase :: "HierPathOp \<Rightarrow> Circuit \<Rightarrow> Circuit" where
  "erase path c =
     c\<lparr>nlaTable := remove1 path (nlaTable c),
       symTbl := filter (\<lambda>(k, v). k \<noteq> sym_name path) (symTbl c)\<rparr>"

definition addNLA :: "HierPathOp \<Rightarrow> Circuit \<Rightarrow> Circuit" where
  "addNLA path c = c\<lparr>nlaTable := nlaTable c @ [path]\<rparr>"

definition insert_symbol :: "HierPathOp \<Rightarrow> Circuit \<Rightarrow> Circuit" where
  "insert_symbol path c = c\<lparr>symTbl := symTbl c @ [(sym_name path, PathSymbol path)]\<rparr>"

text \<open>
  The lambda \<^verbatim>\<open>updateNLASymbol\<close> with \<^verbatim>\<open>removeAnnotations\<close> and \<^verbatim>\<open>addAnnotations\<close>: the
  annotations whose \<^verbatim>\<open>circt.nonlocal\<close> is the old path name are removed and added again
  with the new name.
\<close>

definition refersTo :: "string \<Rightarrow> DictionaryAttr \<Rightarrow> bool" where
  "refersTo oldSym anno \<longleftrightarrow> anno ''circt.nonlocal'' = Some (FlatSymbolRefAttr oldSym)"

definition updateNLASymbol :: "string \<Rightarrow> string \<Rightarrow> DictionaryAttr list \<Rightarrow> DictionaryAttr list" where
  "updateNLASymbol oldSym newSym annos =
     filter (\<lambda>a. \<not> refersTo oldSym a) annos
     @ map (\<lambda>a. setMember a ''circt.nonlocal'' (FlatSymbolRefAttr newSym))
         (filter (refersTo oldSym) annos)"

text \<open>
  The update of \<^verbatim>\<open>runOnOperation\<close>.  \<open>splitTarget\<close> is the body of the loop over the
  targets of one path, on the name path being rebuilt, the old symbol (unset before the
  first target) and the circuit; \<open>splitPath\<close> is that loop; \<open>updatePaths\<close> is the loop over
  the paths through the module of one renamed reference, which skips the paths that do
  not end in it (a path is taken to have at least one reference);
  \<open>updateHierPaths\<close> is the loop over all renamed references, after the allocator has been
  set up with the symbol names of the circuit.
\<close>

definition splitTarget ::
  "HierPathOp \<Rightarrow> Attribute list \<times> string option \<times> Circuit \<Rightarrow> AnnoTarget
    \<Rightarrow> Attribute list \<times> string option \<times> Circuit" where
  "splitTarget path st target =
     (let (newNamepath, oldSym, c) = st;
          popped = butlast newNamepath;
          (oldSym', newSym, c1) =
            (case oldSym of
               None \<Rightarrow> (sym_name path, sym_name path, erase path c)
             | Some s \<Rightarrow>
                 (let (n, ns) = newName (circtNamespace c) s
                  in (s, n, c\<lparr>circtNamespace := ns\<rparr>)));
          pushed = popped @ [InnerRefAttr (target_module target) (target_sym target)];
          newPath = \<lparr>sym_name = newSym, namepath = pushed\<rparr>;
          c2 = c1\<lparr>annotations := (annotations c1)
                 (target := updateNLASymbol oldSym' newSym (annotations c1 target))\<rparr>
      in (pushed, Some oldSym', insert_symbol newPath (addNLA newPath c2)))"

definition splitPath :: "Circuit \<Rightarrow> AnnoTarget list \<Rightarrow> HierPathOp \<Rightarrow> Circuit" where
  "splitPath c newRefs path =
     snd (snd (foldl (splitTarget path) (namepath path, None, c) newRefs))"

definition updatePaths :: "Circuit \<Rightarrow> Attribute \<times> AnnoTarget list \<Rightarrow> Circuit" where
  "updatePaths c pair =
     (let (oldRef, newRefs) = pair
      in foldl (\<lambda>c path.
                  if namepath path = [] \<or> oldRef \<noteq> last (namepath path) then c
                  else splitPath c newRefs path)
           c (lookup (nlaTable c) (case path_module oldRef of Some m \<Rightarrow> m | None \<Rightarrow> [])))"

definition updateHierPaths :: "Circuit \<Rightarrow> (Attribute \<times> AnnoTarget list) list \<Rightarrow> Circuit" where
  "updateHierPaths c innerRefRenames =
     foldl updatePaths (c\<lparr>circtNamespace := map fst (symTbl c)\<rparr>) innerRefRenames"


definition newPathFor :: "Attribute list \<Rightarrow> string \<Rightarrow> AnnoTarget \<Rightarrow> HierPathOp" where
  "newPathFor pre n t =
     \<lparr>sym_name = n, namepath = pre @ [InnerRefAttr (target_module t) (target_sym t)]\<rparr>"



section \<open>Operations and values\<close>

text \<open>
  Modelled from the spec: the operation framework (operations, values, use lists, the
  builder) is not among the sources.  A value is the result of an operation or a block
  argument; it is known by a number and carries its type.  An operation has a number of
  its own; one with a result (\<open>Expr\<close>) has a name, operands and the type of its result, and
  its result is the value with the operation's number; a statement (\<open>Stmt\<close>) has a name and
  operands; a conditional block (\<open>WhenOp\<close>) has a condition, a then block and possibly an
  else block.  Only the operations that the functions below read or create have names of
  their own.
\<close>

datatype OpName =
    SubfieldOp nat
  | SubindexOp nat
  | SubaccessOp
  | ConstantOp nat
  | EQPrimOp
  | InvalidValueOp
  | MultibitMuxOp
  | OtherOp string

datatype StmtName = ConnectOp | StrictConnectOp | OtherStmt string

datatype Value = Value (vid: nat) (getType: FIRRTLType)

datatype Operation =
    Expr nat OpName "Value list" FIRRTLType
  | Stmt nat StmtName "Value list"
  | WhenOp nat Value "Operation list" "Operation list option"

text \<open>
  The fatal ends of the pass: \<^verbatim>\<open>llvm_unreachable\<close>, a failed assertion or cast,
  \<^verbatim>\<open>report_fatal_error\<close>, the dereference of a null pointer, and a loop that does not end.
\<close>

datatype error =
    llvm_unreachable string
  | assertion string
  | report_fatal_error string
  | null_dereference
  | does_not_return

fun opId :: "Operation \<Rightarrow> nat" where
  "opId (Expr i n vs t) = i"
| "opId (Stmt i n vs) = i"
| "opId (WhenOp i c thenBlock elseBlock) = i"

fun getOperands :: "Operation \<Rightarrow> Value list" where
  "getOperands (Expr i n vs t) = vs"
| "getOperands (Stmt i n vs) = vs"
| "getOperands (WhenOp i c thenBlock elseBlock) = [c]"

fun getResult :: "Operation \<Rightarrow> Value option" where
  "getResult (Expr i n vs t) = Some (Value i t)"
| "getResult _ = None"

text \<open>
  \<open>walk\<close> lists an operation and the operations nested in it.  \<open>replaceUsesIn\<close> and
  \<open>eraseFrom\<close> are \<^verbatim>\<open>replaceAllUsesWith\<close> and \<^verbatim>\<open>erase\<close> on an operation and on a block:
  every operand that is the old value becomes the new one; the operation with the given
  number is removed, with everything nested in it.
\<close>

fun walk :: "Operation \<Rightarrow> Operation list" where
  "walk (WhenOp i c thenBlock elseBlock) =
     WhenOp i c thenBlock elseBlock # concat (map walk thenBlock)
       @ (case elseBlock of None \<Rightarrow> [] | Some es \<Rightarrow> concat (map walk es))"
| "walk operation = [operation]"

fun replaceUsesIn :: "Value \<Rightarrow> Value \<Rightarrow> Operation \<Rightarrow> Operation" where
  "replaceUsesIn old new (Expr i n vs t) = Expr i n (map (\<lambda>v. if v = old then new else v) vs) t"
| "replaceUsesIn old new (Stmt i n vs) = Stmt i n (map (\<lambda>v. if v = old then new else v) vs)"
| "replaceUsesIn old new (WhenOp i c thenBlock elseBlock) =
     WhenOp i (if c = old then new else c) (map (replaceUsesIn old new) thenBlock)
       (map_option (map (replaceUsesIn old new)) elseBlock)"

fun eraseFrom :: "nat \<Rightarrow> Operation list \<Rightarrow> Operation list" where
  "eraseFrom k [] = []"
| "eraseFrom k (WhenOp i c thenBlock elseBlock # ops) =
     (if i = k then eraseFrom k ops
      else WhenOp i c (eraseFrom k thenBlock) (map_option (eraseFrom k) elseBlock) # eraseFrom k ops)"
| "eraseFrom k (operation # ops) =
     (if opId operation = k then eraseFrom k ops else operation # eraseFrom k ops)"

text \<open>
  What a visitor works on: the operations of the module as they stand (\<open>body\<close>), the
  operations that the builder has inserted before the operation being visited
  (\<open>inserted\<close>, in the order of their creation), and the number of the next operation to
  be created.  The users of a value are looked for in both.
\<close>

record LoweringState =
  body :: "Operation list"
  inserted :: "Operation list"
  nextId :: nat

definition allOperations :: "LoweringState \<Rightarrow> Operation list" where
  "allOperations st = concat (map walk (body st @ inserted st))"

definition getDefiningOp :: "LoweringState \<Rightarrow> Value \<Rightarrow> Operation option" where
  "getDefiningOp st v = find (\<lambda>operation. getResult operation = Some v) (allOperations st)"

definition getUsers :: "LoweringState \<Rightarrow> Value \<Rightarrow> Operation list" where
  "getUsers st v = filter (\<lambda>operation. v \<in> set (getOperands operation)) (allOperations st)"

definition use_empty :: "LoweringState \<Rightarrow> Value \<Rightarrow> bool" where
  "use_empty st v \<longleftrightarrow> getUsers st v = []"

definition replaceAllUsesWith :: "LoweringState \<Rightarrow> Value \<Rightarrow> Value \<Rightarrow> LoweringState" where
  "replaceAllUsesWith st old new =
     st\<lparr>body := map (replaceUsesIn old new) (body st),
        inserted := map (replaceUsesIn old new) (inserted st)\<rparr>"

definition erase_op :: "LoweringState \<Rightarrow> nat \<Rightarrow> LoweringState" where
  "erase_op st k = st\<lparr>body := eraseFrom k (body st), inserted := eraseFrom k (inserted st)\<rparr>"

text \<open>
  The builder: an insertion point (the operations inserted there so far) and the next
  number.  \<open>create\<close> adds an operation with a result and returns the result.  The type of
  an accessor's result is inferred from the type of its input: the type of the field of
  a bundle, the element type of a vector (for an input that the verifier would reject,
  an integer of unknown width).
\<close>

type_synonym Builder = "Operation list \<times> nat"

definition builder :: "LoweringState \<Rightarrow> Builder" where
  "builder st = (inserted st, nextId st)"

definition setBuilder :: "LoweringState \<Rightarrow> Builder \<Rightarrow> LoweringState" where
  "setBuilder st b = st\<lparr>inserted := fst b, nextId := snd b\<rparr>"

definition create :: "Builder \<Rightarrow> OpName \<Rightarrow> Value list \<Rightarrow> FIRRTLType \<Rightarrow> Value \<times> Builder" where
  "create b n vs t = (Value (snd b) t, (fst b @ [Expr (snd b) n vs t], Suc (snd b)))"

definition createStmt :: "Builder \<Rightarrow> StmtName \<Rightarrow> Value list \<Rightarrow> Builder" where
  "createStmt b n vs = (fst b @ [Stmt (snd b) n vs], Suc (snd b))"

definition subfieldType :: "FIRRTLType \<Rightarrow> nat \<Rightarrow> FIRRTLType" where
  "subfieldType t k =
     (case t of
        BundleType es \<Rightarrow> if k < length es then elt_type (es ! k) else UIntType None
      | _ \<Rightarrow> UIntType None)"

definition getElementType :: "FIRRTLType \<Rightarrow> FIRRTLType" where
  "getElementType t = (case t of FVectorType et n \<Rightarrow> et | _ \<Rightarrow> UIntType None)"

text \<open>
  Modelled from the spec: \<^verbatim>\<open>emitConnect\<close> (\<^verbatim>\<open>FIRRTLUtils\<close>) is not among the sources; it
  emits one assignment of the source to the destination.
\<close>

definition emitConnect :: "Builder \<Rightarrow> Value \<Rightarrow> Value \<Rightarrow> Builder" where
  "emitConnect b dest src = createStmt b ConnectOp [dest, src]"

section \<open>Lowering of connects and of dynamic accesses\<close>

definition getSubWhatever :: "Builder \<Rightarrow> Value \<Rightarrow> nat \<Rightarrow> error + Value \<times> Builder" where
  "getSubWhatever b val k =
     (case getType val of
        BundleType es \<Rightarrow> Inr (create b (SubfieldOp k) [val] (subfieldType (getType val) k))
      | FVectorType et n \<Rightarrow> Inr (create b (SubindexOp k) [val] (getElementType (getType val)))
      | _ \<Rightarrow> Inl (llvm_unreachable ''Unknown aggregate type''))"

text \<open>
  \<^verbatim>\<open>getSAWritePath\<close> follows the defining operations of the destination as long as they
  are accessors.  The loop of the source ends only if that chain is finite; the walk
  here has fuel for one step more than there are operations, and \<open>None\<close> stands for the
  loop that does not end.  The operations of the chain are then trimmed from the far end
  up to the first dynamic access that \<^verbatim>\<open>isNotSubAccess\<close> does not reject.
\<close>

fun isAccessor :: "Operation \<Rightarrow> bool" where
  "isAccessor (Expr i (SubfieldOp k) vs t) = True"
| "isAccessor (Expr i (SubindexOp k) vs t) = True"
| "isAccessor (Expr i SubaccessOp vs t) = True"
| "isAccessor _ = False"

fun followAccessors :: "nat \<Rightarrow> LoweringState \<Rightarrow> Value \<Rightarrow> Operation list option" where
  "followAccessors 0 st v = None"
| "followAccessors (Suc fuel) st v =
     (case getDefiningOp st v of
        None \<Rightarrow> Some []
      | Some defOp \<Rightarrow>
          if isAccessor defOp \<and> getOperands defOp \<noteq> []
          then map_option (Cons defOp) (followAccessors fuel st (hd (getOperands defOp)))
          else Some [])"

definition isConstant :: "LoweringState \<Rightarrow> Value \<Rightarrow> bool" where
  "isConstant st v =
     (case getDefiningOp st v of Some (Expr i (ConstantOp c) vs t) \<Rightarrow> True | _ \<Rightarrow> False)"

fun isNotSubAccess :: "LoweringState \<Rightarrow> Operation \<Rightarrow> bool" where
  "isNotSubAccess st (Expr i SubaccessOp [input, sel] t) =
     (isConstant st sel \<and> getNumElements (getType input) \<noteq> 0)"
| "isNotSubAccess st operation = True"

definition getSAWritePath :: "LoweringState \<Rightarrow> Operation \<Rightarrow> Operation list option" where
  "getSAWritePath st operation =
     map_option (\<lambda>retval. rev (dropWhile (isNotSubAccess st) (rev retval)))
       (followAccessors (Suc (length (allOperations st))) st (hd (getOperands operation)))"

text \<open>
  \<^verbatim>\<open>llvm::Log2_64_Ceil\<close>: the number of bits of \<open>n - 1\<close>, and 64 for 0.
\<close>

fun bit_length :: "nat \<Rightarrow> nat" where
  "bit_length n = (if n = 0 then 0 else Suc (bit_length (n div 2)))"

declare bit_length.simps [simp del]

definition Log2_64_Ceil :: "nat \<Rightarrow> nat" where
  "Log2_64_Ceil n = (if n = 0 then 64 else bit_length (n - 1))"

text \<open>
  \<^verbatim>\<open>cloneAccess\<close> creates the accessor again on another input, with the other operands
  of the original (the index of a dynamic access).  \<open>whenBody\<close> is the body that
  \<^verbatim>\<open>lowerSAWritePath\<close> gives each conditional block: the static access to one element, the
  accessors of the write path above the dynamic access, from the innermost outwards, and
  the connect.  \<open>lowerSAWritePathLoop\<close> is the loop over the indices of the vector: the
  constant (of the select width, so the index is cut to that many bits), the comparison
  with the dynamic index, and the conditional block, which is created before its body.
  \<^verbatim>\<open>lowerSAWritePath\<close> casts the last operation of the path to a dynamic access and the
  type of its input to a vector type; either cast is fatal when it fails.
\<close>

fun inferAccessType :: "OpName \<Rightarrow> FIRRTLType \<Rightarrow> FIRRTLType" where
  "inferAccessType (SubfieldOp k) t = subfieldType t k"
| "inferAccessType n t = getElementType t"

fun cloneAccess :: "Builder \<Rightarrow> Operation \<Rightarrow> Value \<Rightarrow> error + Value \<times> Builder" where
  "cloneAccess b (Expr i n vs t) rhs =
     (if isAccessor (Expr i n vs t)
      then Inr (create b n (rhs # tl vs) (inferAccessType n (getType rhs)))
      else Inl (assertion ''Unknown accessor''))"
| "cloneAccess b operation rhs = Inl (assertion ''Unknown accessor'')"

fun cloneAccesses :: "Operation list \<Rightarrow> Value \<Rightarrow> Builder \<Rightarrow> error + Value \<times> Builder" where
  "cloneAccesses [] leaf b = Inr (leaf, b)"
| "cloneAccesses (operation # ops) leaf b =
     (case cloneAccess b operation leaf of
        Inl e \<Rightarrow> Inl e
      | Inr (leaf', b') \<Rightarrow> cloneAccesses ops leaf' b')"

definition whenBody ::
  "Operation list \<Rightarrow> Value \<Rightarrow> Value \<Rightarrow> nat \<Rightarrow> Builder \<Rightarrow> error + Builder" where
  "whenBody writePath input src k b =
     (let (leaf, b1) = create b (SubindexOp k) [input] (getElementType (getType input))
      in case cloneAccesses (rev (butlast writePath)) leaf b1 of
           Inl e \<Rightarrow> Inl e
         | Inr (leaf', b2) \<Rightarrow> Inr (emitConnect b2 leaf' src))"

fun lowerSAWritePathLoop ::
  "Operation list \<Rightarrow> Value \<Rightarrow> Value \<Rightarrow> Value \<Rightarrow> nat \<Rightarrow> nat list \<Rightarrow> Builder \<Rightarrow> error + Builder" where
  "lowerSAWritePathLoop writePath input sel src selectWidth [] b = Inr b"
| "lowerSAWritePathLoop writePath input sel src selectWidth (k # ks) b =
     (let (c, b1) = create b (ConstantOp (k mod 2 ^ selectWidth)) [] (UIntType (Some selectWidth));
          (cond, b2) = create b1 EQPrimOp [sel, c] (UIntType (Some 1))
      in case whenBody writePath input src k ([], Suc (snd b2)) of
           Inl e \<Rightarrow> Inl e
         | Inr (thenBlock, next) \<Rightarrow>
             lowerSAWritePathLoop writePath input sel src selectWidth ks
               (fst b2 @ [WhenOp (snd b2) cond thenBlock None], next))"

definition lowerSAWritePath ::
  "Builder \<Rightarrow> Operation \<Rightarrow> Operation list \<Rightarrow> error + Builder" where
  "lowerSAWritePath b operation writePath =
     (case last writePath of
        Expr i SubaccessOp [input, sel] t \<Rightarrow>
          (case getType input of
             FVectorType et n \<Rightarrow>
               lowerSAWritePathLoop writePath input sel (getOperands operation ! 1)
                 (Log2_64_Ceil n) [0..<n] b
           | _ \<Rightarrow> Inl (assertion ''cast<FVectorType>''))
      | _ \<Rightarrow> Inl (assertion ''cast<SubaccessOp>''))"

text \<open>
  \<^verbatim>\<open>processSAPath\<close>: after the write path is expanded, the operands of the connect are
  dropped and the accessors of the path are erased from the connect upwards, as long as
  they have no use left.
\<close>

fun eraseOperandsIn :: "nat \<Rightarrow> Operation \<Rightarrow> Operation" where
  "eraseOperandsIn k (Stmt i n vs) = (if i = k then Stmt i n (drop 2 vs) else Stmt i n vs)"
| "eraseOperandsIn k (Expr i n vs t) = (if i = k then Expr i n (drop 2 vs) t else Expr i n vs t)"
| "eraseOperandsIn k (WhenOp i c thenBlock elseBlock) =
     WhenOp i c (map (eraseOperandsIn k) thenBlock) (map_option (map (eraseOperandsIn k)) elseBlock)"

definition eraseOperands :: "LoweringState \<Rightarrow> nat \<Rightarrow> LoweringState" where
  "eraseOperands st k =
     st\<lparr>body := map (eraseOperandsIn k) (body st),
        inserted := map (eraseOperandsIn k) (inserted st)\<rparr>"

fun eraseDeadPath :: "Operation list \<Rightarrow> LoweringState \<Rightarrow> LoweringState" where
  "eraseDeadPath [] st = st"
| "eraseDeadPath (operation # ops) st =
     (if (case getResult operation of Some v \<Rightarrow> use_empty st v | None \<Rightarrow> True)
      then eraseDeadPath ops (erase_op st (opId operation))
      else st)"

definition processSAPath :: "LoweringState \<Rightarrow> Operation \<Rightarrow> error + bool \<times> LoweringState" where
  "processSAPath st operation =
     (case getSAWritePath st operation of
        None \<Rightarrow> Inl does_not_return
      | Some writePath \<Rightarrow>
          if writePath = [] then Inr (False, st)
          else case lowerSAWritePath (builder st) operation writePath of
                 Inl e \<Rightarrow> Inl e
               | Inr b \<Rightarrow>
                   Inr (True, eraseDeadPath writePath
                                (eraseOperands (setBuilder st b) (opId operation))))"

text \<open>
  \<^verbatim>\<open>visitStmt\<close> on a connect; the two functions of the source, for \<^verbatim>\<open>ConnectOp\<close> and for
  \<^verbatim>\<open>StrictConnectOp\<close>, differ only in how the new connect is emitted, which
  \<open>connectFields\<close>, the loop over the peeled fields, decides by the name.  The flag
  returned says whether the walk over the block has to erase the connect.
\<close>

fun connectFields ::
  "StmtName \<Rightarrow> Value \<Rightarrow> Value \<Rightarrow> (nat \<times> FlatBundleFieldEntry) list \<Rightarrow> Builder \<Rightarrow> error + Builder" where
  "connectFields nm dest src [] b = Inr b"
| "connectFields nm dest src ((k, field) # rest) b =
     (case getSubWhatever b src k of
        Inl e \<Rightarrow> Inl e
      | Inr (src', b1) \<Rightarrow>
          (case getSubWhatever b1 dest k of
             Inl e \<Rightarrow> Inl e
           | Inr (dest', b2) \<Rightarrow>
               connectFields nm dest src rest
                 (if nm = StrictConnectOp
                  then createStmt b2 StrictConnectOp
                         (if isOutput field then [src', dest'] else [dest', src'])
                  else if isOutput field then emitConnect b2 src' dest'
                  else emitConnect b2 dest' src')))"

definition visitStmt :: "LoweringState \<Rightarrow> Operation \<Rightarrow> error + bool \<times> LoweringState" where
  "visitStmt st operation =
     (case processSAPath st operation of
        Inl e \<Rightarrow> Inl e
      | Inr (True, st') \<Rightarrow> Inr (True, st')
      | Inr (False, st') \<Rightarrow>
          (case operation of
             Stmt i nm [dest, src] \<Rightarrow>
               (case peelType (getType dest) False of
                  None \<Rightarrow> Inr (False, st)
                | Some fieldTypes \<Rightarrow>
                    (case connectFields nm dest src (zip [0..<length fieldTypes] fieldTypes) (builder st) of
                       Inl e \<Rightarrow> Inl e
                     | Inr b \<Rightarrow> Inr (True, setBuilder st b)))
           | _ \<Rightarrow> Inl (assertion ''not a connect'')))"









definition nested :: "Operation list \<Rightarrow> Operation set" where
  "nested ops = set (concat (map walk ops))"

definition subAccessName :: "FIRRTLType \<Rightarrow> nat \<Rightarrow> OpName" where
  "subAccessName t k = (case t of BundleType es \<Rightarrow> SubfieldOp k | _ \<Rightarrow> SubindexOp k)"

definition subAccessType :: "FIRRTLType \<Rightarrow> nat \<Rightarrow> FIRRTLType" where
  "subAccessType t k = (case t of BundleType es \<Rightarrow> subfieldType t k | _ \<Rightarrow> getElementType t)"

definition fieldConnect ::
  "StmtName \<Rightarrow> nat \<Rightarrow> Value \<Rightarrow> Value \<Rightarrow> FlatBundleFieldEntry \<Rightarrow> nat \<Rightarrow> Operation list" where
  "fieldConnect nm first dest src field k =
     [Expr first (subAccessName (getType src) k) [src] (subAccessType (getType src) k),
      Expr (Suc first) (subAccessName (getType dest) k) [dest] (subAccessType (getType dest) k),
      Stmt (Suc (Suc first)) nm
        (if isOutput field
         then [Value first (subAccessType (getType src) k),
               Value (Suc first) (subAccessType (getType dest) k)]
         else [Value (Suc first) (subAccessType (getType dest) k),
               Value first (subAccessType (getType src) k)])]"

section \<open>The expansion of a dynamic write, stated\<close>

text \<open>
  For stating what \<^verbatim>\<open>lowerSAWritePath\<close> and \<^verbatim>\<open>processSAPath\<close> produce.  \<open>cloneOf\<close> is the
  accessor that \<^verbatim>\<open>cloneAccess\<close> creates, with a given number; \<open>pathClones\<close> are the
  accessors of a path created again one on the other, starting from a leaf, and \<open>pathLeaf\<close>
  is the value that the last of them gives.  \<open>writeBlock\<close> is the body of one conditional
  block: the static access to element \<open>k\<close> of the vector, the accessors of the write path
  between the dynamic access and the connect, and one connect of the source to the end of
  that path.  \<open>whenGroup\<close> is what is emitted for one index: the constant, the comparison
  of the dynamic index with it, and the block conditional on that comparison.
  \<open>conditionalBlocks\<close> are the groups for the indices \<open>0\<close> to \<open>n - 1\<close>, and
  \<open>expandedWrite\<close> is the state after the groups are inserted, the operands of the connect
  dropped and the path erased as far as it is dead.
\<close>

fun cloneOf :: "Operation \<Rightarrow> Value \<Rightarrow> nat \<Rightarrow> Operation" where
  "cloneOf (Expr i n vs t) rhs first = Expr first n (rhs # tl vs) (inferAccessType n (getType rhs))"
| "cloneOf operation rhs first = operation"

fun pathClones :: "Operation list \<Rightarrow> Value \<Rightarrow> nat \<Rightarrow> Operation list" where
  "pathClones [] leaf first = []"
| "pathClones (p # ps) leaf first =
     cloneOf p leaf first # pathClones ps (the (getResult (cloneOf p leaf first))) (Suc first)"

fun pathLeaf :: "Operation list \<Rightarrow> Value \<Rightarrow> nat \<Rightarrow> Value" where
  "pathLeaf [] leaf first = leaf"
| "pathLeaf (p # ps) leaf first =
     pathLeaf ps (the (getResult (cloneOf p leaf first))) (Suc first)"

definition writeBlock :: "Operation list \<Rightarrow> Value \<Rightarrow> Value \<Rightarrow> nat \<Rightarrow> nat \<Rightarrow> Operation list" where
  "writeBlock writePath input src k first =
     Expr first (SubindexOp k) [input] (getElementType (getType input))
     # pathClones (rev (butlast writePath)) (Value first (getElementType (getType input))) (Suc first)
     @ [Stmt (first + length writePath) ConnectOp
          [pathLeaf (rev (butlast writePath)) (Value first (getElementType (getType input)))
             (Suc first), src]]"

definition whenGroup ::
  "Operation list \<Rightarrow> Value \<Rightarrow> Value \<Rightarrow> Value \<Rightarrow> nat \<Rightarrow> nat \<Rightarrow> nat \<Rightarrow> Operation list" where
  "whenGroup writePath input sel src selectWidth k first =
     [Expr first (ConstantOp k) [] (UIntType (Some selectWidth)),
      Expr (Suc first) EQPrimOp [sel, Value first (UIntType (Some selectWidth))] (UIntType (Some 1)),
      WhenOp (first + 2) (Value (Suc first) (UIntType (Some 1)))
        (writeBlock writePath input src k (first + 3)) None]"

definition conditionalBlocks ::
  "Operation list \<Rightarrow> Value \<Rightarrow> Value \<Rightarrow> Value \<Rightarrow> nat \<Rightarrow> nat \<Rightarrow> Operation list" where
  "conditionalBlocks writePath input sel src n first =
     concat (map (\<lambda>k. whenGroup writePath input sel src (Log2_64_Ceil n) k
                         (first + k * (length writePath + 4))) [0..<n])"

definition expandedWrite ::
  "LoweringState \<Rightarrow> nat \<Rightarrow> Operation list \<Rightarrow> Value \<Rightarrow> Value \<Rightarrow> Value \<Rightarrow> nat \<Rightarrow> LoweringState" where
  "expandedWrite st i writePath input sel src n =
     eraseDeadPath writePath
       (eraseOperands
          (st\<lparr>inserted := inserted st @ conditionalBlocks writePath input sel src n (nextId st),
               nextId := nextId st + n * (length writePath + 4)\<rparr>) i)"

text \<open>
  \<open>linkedFrom v ops\<close>: the first operation defines \<open>v\<close>, and each following one defines the
  first operand of the one before.  A state is well formed when no two of its operations
  have the same number and all numbers are below the next one to be given.
\<close>

fun linkedFrom :: "Value \<Rightarrow> Operation list \<Rightarrow> bool" where
  "linkedFrom v [] = True"
| "linkedFrom v (p # ps) = (getResult p = Some v \<and> linkedFrom (hd (getOperands p)) ps)"

fun isWhenOp :: "Operation \<Rightarrow> bool" where
  "isWhenOp (WhenOp i c thenBlock elseBlock) = True"
| "isWhenOp _ = False"

definition wellFormed :: "LoweringState \<Rightarrow> bool" where
  "wellFormed st \<longleftrightarrow>
     distinct (map opId (allOperations st)) \<and> list_all (\<lambda>x. opId x < nextId st) (allOperations st)"

section \<open>Properties of the type functions\<close>

text \<open>
  C8.  The peeler reports no decomposition exactly for a ground type, or when it may
  preserve and the type is preservable; so a ground type is never decomposed, whatever the
  flag, and a bundle or a vector without elements is decomposed into the empty field list.
\<close>

theorem peelType_no_decomposition:
  "(peelType T P = None \<longleftrightarrow> isGround T \<or> (P \<and> isPreservableAggregateType T))
   \<and> (isGround T \<longrightarrow> peelType T P = None)
   \<and> peelType (BundleType []) P = Some []
   \<and> peelType (FVectorType t 0) P = Some []"
  by (cases T) (auto simp: peelType_def isPreservableAggregateType_def)

theorem peelType_no_decomposition_witness:
  "isGround (UIntType (Some 8))
   \<and> peelType (UIntType (Some 8)) True = None
   \<and> peelType (UIntType (Some 8)) False = None
   \<and> peelType (BundleType []) True = Some []
   \<and> peelType (FVectorType (UIntType (Some 8)) 0) True = Some []"
  using peelType_no_decomposition [of "UIntType (Some 8)" True "UIntType (Some 8)"]
    peelType_no_decomposition [of "UIntType (Some 8)" False "UIntType (Some 8)"]
  by simp

text \<open>
  C2, as the specification words it, fails: a bundle of a zero-width field and a one-bit
  field is recognized as having zero bit-width, although not every leaf has zero width and
  the bundle has two elements.
\<close>

theorem hasZeroBitWidth_not_every_leaf:
  "hasZeroBitWidth (BundleType [BundleElement ''a'' False (UIntType (Some 0)),
                                BundleElement ''b'' False (UIntType (Some 1))])
   \<noteq> spec_hasZeroBitWidth (BundleType [BundleElement ''a'' False (UIntType (Some 0)),
                                        BundleElement ''b'' False (UIntType (Some 1))])"
  by (simp add: spec_hasZeroBitWidth_def getValueOr_def)

text \<open>
  C2, amended.  The recognizer reports zero bit-width for a type exactly when some
  component of it has zero width: a leaf reached through its elements has zero width, or
  the type itself or an aggregate reached through its elements has no elements.
\<close>

theorem hasZeroBitWidth_some_component:
  "hasZeroBitWidth T \<longleftrightarrow> list_ex zeroWidthComponent (components T)"
proof (induction T rule: hasZeroBitWidth.induct)
  case (1 es)
  then show ?case by (auto simp: list_ex_iff zeroWidthComponent_def)
next
  case (2 t n)
  then show ?case by (auto simp: list_ex_iff zeroWidthComponent_def)
qed (auto simp: zeroWidthComponent_def)

theorem hasZeroBitWidth_some_component_witness:
  "hasZeroBitWidth (BundleType [BundleElement ''a'' False (UIntType (Some 0)),
                                BundleElement ''b'' False (UIntType (Some 1))])
   \<and> list_ex zeroWidthComponent
        (components (BundleType [BundleElement ''a'' False (UIntType (Some 0)),
                                 BundleElement ''b'' False (UIntType (Some 1))]))
   \<and> \<not> hasZeroBitWidth (FVectorType (UIntType (Some 1)) 2)"
  using hasZeroBitWidth_some_component
    [of "BundleType [BundleElement ''a'' False (UIntType (Some 0)),
                     BundleElement ''b'' False (UIntType (Some 1))]"]
  by (simp add: getValueOr_def)

text \<open>
  C7.  A type that is not ground is left intact by the peeler, when it may preserve, only
  if it is passive, contains no analog component and does not have zero bit-width.  With
  the switch that forces the types of public modules to be lowered, the ports of an
  external module and of a public module may never be preserved, so every port of such a
  module that is not of ground type is decomposed, whatever the preserve-aggregate switch.
\<close>

theorem preservation_policy:
  "(\<not> isGround T \<and> peelType T True = None \<longrightarrow>
      isPassive T \<and> \<not> containsAnalog T \<and> \<not> hasZeroBitWidth T)
   \<and> (preservePublicTypes v \<and> (isFExtModuleOp m \<or> isPublic m) \<longrightarrow>
      \<not> isModuleAllowedToPreserveAggregate v m
      \<and> (\<not> isGround T \<longrightarrow> peelType T (isModuleAllowedToPreserveAggregate v m) \<noteq> None))"
  by (cases T)
    (auto simp: peelType_def isPreservableAggregateType_def
      isModuleAllowedToPreserveAggregate_def)

theorem preservation_policy_witness:
  "\<not> isGround (BundleType [BundleElement ''a'' False (UIntType (Some 1))])
   \<and> peelType (BundleType [BundleElement ''a'' False (UIntType (Some 1))]) True = None
   \<and> isPassive (BundleType [BundleElement ''a'' False (UIntType (Some 1))])
   \<and> preservePublicTypes \<lparr>preserveAggregate = True, preservePublicTypes = True\<rparr>
   \<and> isFExtModuleOp \<lparr>isFExtModuleOp = True, isPublic = False\<rparr>
   \<and> \<not> isModuleAllowedToPreserveAggregate
         \<lparr>preserveAggregate = True, preservePublicTypes = True\<rparr>
         \<lparr>isFExtModuleOp = True, isPublic = False\<rparr>
   \<and> peelType (BundleType [BundleElement ''a'' False (UIntType (Some 1))])
        (isModuleAllowedToPreserveAggregate
           \<lparr>preserveAggregate = True, preservePublicTypes = True\<rparr>
           \<lparr>isFExtModuleOp = True, isPublic = False\<rparr>) \<noteq> None"
  using preservation_policy
    [of "BundleType [BundleElement ''a'' False (UIntType (Some 1))]"
        "\<lparr>preserveAggregate = True, preservePublicTypes = True\<rparr>"
        "\<lparr>isFExtModuleOp = True, isPublic = False\<rparr>"]
  by (simp add: peelType_def isPreservableAggregateType_def getValueOr_def
      isModuleAllowedToPreserveAggregate_def)

section \<open>Properties of the annotation filter\<close>















text \<open>
  The flag is assigned, not accumulated, where an annotation with residual zero of another
  class is kept: after a \<^verbatim>\<open>DontTouchAnnotation\<close> that set it, such an annotation resets it.
\<close>

lemma filterAnnotations_flag_reset:
  "snd (filterAnnotations
      [[''class'' \<mapsto> StringAttr ''firrtl.transforms.DontTouchAnnotation'',
        ''circt.fieldID'' \<mapsto> IntegerAttr 32 1],
       [''class'' \<mapsto> StringAttr ''x'', ''circt.fieldID'' \<mapsto> IntegerAttr 32 1]]
      \<lparr>ftype = UIntType (Some 1), index = 0, fieldID = 1, suffix = ''_a'', isOutput = False\<rparr>
      False) = False"
  by (simp add: filterAnnotations_def filterAnnotation_def getIntegerMember_def removeMember_def
      getClass_def hasSymbolMember_def fieldLow_def fieldHigh_def)

section \<open>Properties of the hierarchical path update\<close>







lemma newPathFor_sel [simp]:
  "sym_name (newPathFor pre n t) = n"
  "namepath (newPathFor pre n t) = pre @ [InnerRefAttr (target_module t) (target_sym t)]"
  by (simp_all add: newPathFor_def)











lemma updateNLASymbol_others:
  "a \<in> set annos \<Longrightarrow> \<not> refersTo old a \<Longrightarrow> a \<in> set (updateNLASymbol old new annos)"
  by (auto simp: updateNLASymbol_def)



section \<open>Properties of the lowering of dynamic reads\<close>











section \<open>Replacing uses and erasing operations\<close>

lemma nested_simps [simp]:
  "nested [] = {}"
  "nested (operation # ops) = set (walk operation) \<union> nested ops"
  "nested (xs @ ys) = nested xs \<union> nested ys"
  by (auto simp: nested_def)

lemma walk_WhenOp:
  "set (walk (WhenOp i c thenBlock elseBlock)) =
     insert (WhenOp i c thenBlock elseBlock)
       (nested thenBlock \<union> (case elseBlock of None \<Rightarrow> {} | Some es \<Rightarrow> nested es))"
  by (cases elseBlock) (auto simp: nested_def)

lemma walk_eraseFrom:
  "x \<in> nested (eraseFrom k ops) \<Longrightarrow>
     opId x \<noteq> k \<and> (\<exists>y \<in> nested ops. getOperands x = getOperands y \<and> opId x = opId y)"
proof (induction k ops arbitrary: x rule: eraseFrom.induct)
  case (1 k)
  then show ?case by simp
next
  case (2 k i c thenBlock elseBlock ops)
  show ?case
  proof (cases "i = k")
    case True
    then have "x \<in> nested (eraseFrom k ops)" using "2.prems" by simp
    from "2.IH"(1) [OF True this] show ?thesis by auto
  next
    case False
    let ?w = "WhenOp i c (eraseFrom k thenBlock) (map_option (eraseFrom k) elseBlock)"
    from "2.prems" False have "x \<in> set (walk ?w) \<or> x \<in> nested (eraseFrom k ops)"
      by simp
    then consider (self) "x = ?w" | (th) "x \<in> nested (eraseFrom k thenBlock)"
      | (el) es where "elseBlock = Some es" "x \<in> nested (eraseFrom k es)"
      | (rest) "x \<in> nested (eraseFrom k ops)"
      by (cases elseBlock) (auto simp: walk_WhenOp simp del: walk.simps)
    then show ?thesis
    proof cases
      case self
      then show ?thesis using False by (auto simp: walk_WhenOp simp del: walk.simps)
    next
      case th
      from "2.IH"(2) [OF False th] show ?thesis
        by (auto simp: walk_WhenOp simp del: walk.simps)
    next
      case el
      from "2.IH"(3) [OF False _ el(2)] el(1) show ?thesis
        by (auto simp: walk_WhenOp simp del: walk.simps)
    next
      case rest
      from "2.IH"(4) [OF False rest] show ?thesis by auto
    qed
  qed
qed (auto split: if_splits)



lemma allOperations_nested: "set (allOperations st) = nested (body st) \<union> nested (inserted st)"
  by (auto simp: allOperations_def nested_def)

lemma allOperations_erase_op:
  "x \<in> set (allOperations (erase_op st k)) \<Longrightarrow>
     opId x \<noteq> k \<and> (\<exists>y \<in> set (allOperations st). getOperands x = getOperands y \<and> opId x = opId y)"
  using walk_eraseFrom [of x k "body st"] walk_eraseFrom [of x k "inserted st"]
  by (auto simp: allOperations_nested erase_op_def)


section \<open>Properties of the lowering of connects\<close>

lemma getSubWhatever_aggregate:
  "\<not> isGround (getType v) \<Longrightarrow>
     getSubWhatever b v k =
       Inr (Value (snd b) (subAccessType (getType v) k),
            (fst b @ [Expr (snd b) (subAccessName (getType v) k) [v] (subAccessType (getType v) k)],
             Suc (snd b)))"
  by (cases "getType v") (simp_all add: getSubWhatever_def create_def subAccessName_def subAccessType_def)

lemma map_upt_Suc_shift:
  "map f [0..<Suc n] = f 0 # map (\<lambda>j. f (Suc j)) [0..<n]"
  by (simp add: upt_conv_Cons map_Suc_upt [symmetric] del: upt_Suc)

lemma connectFields_step:
  assumes "nm = ConnectOp \<or> nm = StrictConnectOp"
    "\<not> isGround (getType src)" "\<not> isGround (getType dest)"
  shows "connectFields nm dest src ((k, f) # kfs) b =
     connectFields nm dest src kfs (fst b @ fieldConnect nm (snd b) dest src f k, Suc (Suc (Suc (snd b))))"
  using assms(1)
  by (auto simp: getSubWhatever_aggregate [OF assms(2)] getSubWhatever_aggregate [OF assms(3)]
      fieldConnect_def createStmt_def emitConnect_def)

lemma connectFields_eq:
  assumes "nm = ConnectOp \<or> nm = StrictConnectOp"
    "\<not> isGround (getType src)" "\<not> isGround (getType dest)"
  shows "connectFields nm dest src kfs b =
     Inr (fst b @ concat (map (\<lambda>j. fieldConnect nm (snd b + 3 * j) dest src (snd (kfs ! j)) (fst (kfs ! j)))
                          [0..<length kfs]),
          snd b + 3 * length kfs)"
proof (induction kfs arbitrary: b)
  case Nil
  then show ?case by simp
next
  case (Cons kf kfs)
  obtain k f where kf: "kf = (k, f)" by (cases kf)
  have sh: "Suc (Suc (Suc (snd b + 3 * j))) = snd b + 3 * Suc j" for j by simp
  show ?case
    unfolding kf connectFields_step [OF assms] Cons.IH
    by (simp add: map_upt_Suc_shift sh del: upt_Suc mult_Suc_right)
qed

lemma peelType_fields:
  assumes "peelType T False = Some fs"
  shows "\<not> isGround T \<and> length fs = getNumElements T
    \<and> (\<forall>k < length fs. ftype (fs ! k) = subAccessType T k \<and> index (fs ! k) = k)"
proof (cases T)
  case (BundleType es)
  then show ?thesis using assms
    by (auto simp: peelType_def subAccessType_def subfieldType_def)
next
  case (FVectorType t n)
  then show ?thesis using assms
    by (auto simp: peelType_def subAccessType_def getElementType_def)
qed (use assms in \<open>auto simp: peelType_def\<close>)

lemma processSAPath_none:
  "getSAWritePath st operation = Some [] \<Longrightarrow> processSAPath st operation = Inr (False, st)"
  by (simp add: processSAPath_def)

lemmas ir_eval =
  visitStmt_def processSAPath_def getSAWritePath_def getDefiningOp_def allOperations_def
  builder_def setBuilder_def create_def createStmt_def emitConnect_def getSubWhatever_def
  subfieldType_def getElementType_def peelType_def isConstant_def getUsers_def
  replaceAllUsesWith_def erase_op_def use_empty_def

text \<open>
  C1, as stated, fails: the connects that are emitted are not ground-level when a field is
  an aggregate itself.  A connect between two values of type \<open>{a: {x: UInt<1>}}\<close> is
  replaced by one connect of the values of the field \<open>a\<close>, which are bundles.
\<close>

theorem connect_not_ground_level:
  "visitStmt
     \<lparr>body = [Stmt 2 ConnectOp
        [Value 0 (BundleType [BundleElement ''a'' False
           (BundleType [BundleElement ''x'' False (UIntType (Some 1))])]),
         Value 1 (BundleType [BundleElement ''a'' False
           (BundleType [BundleElement ''x'' False (UIntType (Some 1))])])]],
      inserted = [], nextId = 3\<rparr>
     (Stmt 2 ConnectOp
        [Value 0 (BundleType [BundleElement ''a'' False
           (BundleType [BundleElement ''x'' False (UIntType (Some 1))])]),
         Value 1 (BundleType [BundleElement ''a'' False
           (BundleType [BundleElement ''x'' False (UIntType (Some 1))])])])
   = Inr (True,
     \<lparr>body = [Stmt 2 ConnectOp
        [Value 0 (BundleType [BundleElement ''a'' False
           (BundleType [BundleElement ''x'' False (UIntType (Some 1))])]),
         Value 1 (BundleType [BundleElement ''a'' False
           (BundleType [BundleElement ''x'' False (UIntType (Some 1))])])]],
      inserted =
        [Expr 3 (SubfieldOp 0)
           [Value 1 (BundleType [BundleElement ''a'' False
              (BundleType [BundleElement ''x'' False (UIntType (Some 1))])])]
           (BundleType [BundleElement ''x'' False (UIntType (Some 1))]),
         Expr 4 (SubfieldOp 0)
           [Value 0 (BundleType [BundleElement ''a'' False
              (BundleType [BundleElement ''x'' False (UIntType (Some 1))])])]
           (BundleType [BundleElement ''x'' False (UIntType (Some 1))]),
         Stmt 5 ConnectOp
           [Value 4 (BundleType [BundleElement ''x'' False (UIntType (Some 1))]),
            Value 3 (BundleType [BundleElement ''x'' False (UIntType (Some 1))])]],
      nextId = 6\<rparr>)
   \<and> \<not> isGround (getType (Value 4 (BundleType [BundleElement ''x'' False (UIntType (Some 1))])))"
  by (simp add: ir_eval)

text \<open>
  C1, amended.  For a connect of either kind whose destination does not lead through
  accessors to a dynamic access and whose destination type peels into the fields \<open>fs\<close>,
  the visit asks for the connect to be erased and emits, for each field in order, the
  accessor of that element of the source, the accessor of that element of the
  destination, and one connect of the same kind between the two, from the source element
  to the destination element, and the other way round exactly for the fields whose
  polarity is inverted.  The emitted connects have the types of the fields, so they are
  ground-level exactly for the fields of ground type.
\<close>

theorem connect_expansion:
  assumes "nm = ConnectOp \<or> nm = StrictConnectOp"
    "getSAWritePath st (Stmt i nm [dest, src]) = Some []"
    "peelType (getType dest) False = Some fs"
    "fs = [] \<or> \<not> isGround (getType src)"
  shows "visitStmt st (Stmt i nm [dest, src]) =
      Inr (True, st\<lparr>inserted := inserted st
                 @ concat (map (\<lambda>k. fieldConnect nm (nextId st + 3 * k) dest src (fs ! k) k)
                             [0..<length fs]),
               nextId := nextId st + 3 * length fs\<rparr>)
    \<and> (\<forall>k < length fs. subAccessType (getType dest) k = ftype (fs ! k))"
proof -
  note pf = peelType_fields [OF assms(3)]
  have z: "zip [0..<length fs] fs ! j = (j, fs ! j)" if "j < length fs" for j
    using that by simp
  have "connectFields nm dest src (zip [0..<length fs] fs) (builder st) =
     Inr (inserted st @ concat (map (\<lambda>k. fieldConnect nm (nextId st + 3 * k) dest src (fs ! k) k)
                             [0..<length fs]),
          nextId st + 3 * length fs)"
  proof (cases "fs = []")
    case True
    then show ?thesis by (simp add: builder_def)
  next
    case False
    then have s: "\<not> isGround (getType src)" using assms(4) by simp
    have d: "\<not> isGround (getType dest)" using pf by simp
    show ?thesis
    proof -
      have m: "map (\<lambda>j. fieldConnect nm (nextId st + 3 * j) dest src
                      (snd (zip [0..<length fs] fs ! j)) (fst (zip [0..<length fs] fs ! j)))
               [0..<length fs]
          = map (\<lambda>k. fieldConnect nm (nextId st + 3 * k) dest src (fs ! k) k) [0..<length fs]"
        by (rule map_cong) (simp_all add: z)
      show ?thesis
        unfolding connectFields_eq [OF assms(1) s d] by (simp add: builder_def m)
    qed
  qed
  then show ?thesis
    using pf assms(3) by (simp add: visitStmt_def processSAPath_none [OF assms(2)] setBuilder_def)
qed

theorem connect_expansion_witness:
  "(let T = BundleType [BundleElement ''a'' True (UIntType (Some 1)),
                        BundleElement ''b'' False (UIntType (Some 1))];
        st = \<lparr>body = [Stmt 2 StrictConnectOp [Value 0 T, Value 1 T]], inserted = [], nextId = 3\<rparr>
    in getSAWritePath st (Stmt 2 StrictConnectOp [Value 0 T, Value 1 T]) = Some []
       \<and> peelType (getType (Value 0 T)) False =
           Some [\<lparr>ftype = UIntType (Some 1), index = 0, fieldID = 1, suffix = ''_a'', isOutput = True\<rparr>,
                 \<lparr>ftype = UIntType (Some 1), index = 1, fieldID = 2, suffix = ''_b'', isOutput = False\<rparr>]
       \<and> \<not> isGround (getType (Value 1 T))
       \<and> visitStmt st (Stmt 2 StrictConnectOp [Value 0 T, Value 1 T]) =
           Inr (True,
             \<lparr>body = [Stmt 2 StrictConnectOp [Value 0 T, Value 1 T]],
              inserted =
                [Expr 3 (SubfieldOp 0) [Value 1 T] (UIntType (Some 1)),
                 Expr 4 (SubfieldOp 0) [Value 0 T] (UIntType (Some 1)),
                 Stmt 5 StrictConnectOp [Value 3 (UIntType (Some 1)), Value 4 (UIntType (Some 1))],
                 Expr 6 (SubfieldOp 1) [Value 1 T] (UIntType (Some 1)),
                 Expr 7 (SubfieldOp 1) [Value 0 T] (UIntType (Some 1)),
                 Stmt 8 StrictConnectOp [Value 7 (UIntType (Some 1)), Value 6 (UIntType (Some 1))]],
              nextId = 9\<rparr>))"
proof -
  let ?T = "BundleType [BundleElement ''a'' True (UIntType (Some 1)),
                        BundleElement ''b'' False (UIntType (Some 1))]"
  let ?st = "\<lparr>body = [Stmt 2 StrictConnectOp [Value 0 ?T, Value 1 ?T]], inserted = [], nextId = 3\<rparr>"
  let ?fs = "[\<lparr>ftype = UIntType (Some 1), index = 0, fieldID = 1, suffix = ''_a'', isOutput = True\<rparr>,
              \<lparr>ftype = UIntType (Some 1), index = 1, fieldID = 2, suffix = ''_b'', isOutput = False\<rparr>]"
  have h1: "StrictConnectOp = ConnectOp \<or> StrictConnectOp = StrictConnectOp" by simp
  have h2: "getSAWritePath ?st (Stmt 2 StrictConnectOp [Value 0 ?T, Value 1 ?T]) = Some []"
    by (simp add: getSAWritePath_def getDefiningOp_def allOperations_def)
  have h3: "peelType (getType (Value 0 ?T)) False = Some ?fs"
    by (simp add: peelType_def)
  have h4: "?fs = [] \<or> \<not> isGround (getType (Value 1 ?T))" by simp
  note th = connect_expansion [OF h1 h2 h3 h4, THEN conjunct1]
  have l: "[0..<length ?fs] = [0, 1]" by (simp add: upt_rec)
  show ?thesis
    unfolding Let_def using h2 h3 th
    by (simp add: l fieldConnect_def subAccessName_def subAccessType_def subfieldType_def)
qed

section \<open>Properties of the lowering of dynamic writes\<close>

subsection \<open>What the loop of \<^verbatim>\<open>lowerSAWritePath\<close> emits\<close>

lemma cloneAccess_eq:
  "isAccessor p \<Longrightarrow>
     cloneAccess b p rhs =
       Inr (the (getResult (cloneOf p rhs (snd b))), (fst b @ [cloneOf p rhs (snd b)], Suc (snd b)))"
  by (cases p) (auto simp: create_def)

lemma cloneAccesses_eq:
  "\<forall>p \<in> set ps. isAccessor p \<Longrightarrow>
     cloneAccesses ps leaf b =
       Inr (pathLeaf ps leaf (snd b), (fst b @ pathClones ps leaf (snd b), snd b + length ps))"
proof (induction ps arbitrary: leaf b)
  case Nil
  then show ?case by simp
next
  case (Cons p ps)
  then show ?case by (simp add: cloneAccess_eq)
qed

lemma length_pathClones [simp]: "length (pathClones ps leaf first) = length ps"
  by (induction ps arbitrary: leaf first) simp_all

lemma whenBody_eq:
  assumes "\<forall>p \<in> set writePath. isAccessor p" "writePath \<noteq> []"
  shows "whenBody writePath input src k ([], first) =
     Inr (writeBlock writePath input src k first, Suc (first + length writePath))"
proof -
  have a: "\<forall>p \<in> set (rev (butlast writePath)). isAccessor p"
    using assms(1) by (auto dest: in_set_butlastD)
  have l: "Suc (length (butlast writePath)) = length writePath" using assms(2) by simp
  show ?thesis
    using l
    by (simp add: whenBody_def create_def cloneAccesses_eq [OF a] writeBlock_def emitConnect_def
        createStmt_def)
qed

lemma lowerSAWritePathLoop_step:
  assumes "\<forall>p \<in> set writePath. isAccessor p" "writePath \<noteq> []" "k < 2 ^ w"
  shows "lowerSAWritePathLoop writePath input sel src w (k # ks) b =
     lowerSAWritePathLoop writePath input sel src w ks
       (fst b @ whenGroup writePath input sel src w k (snd b), snd b + (length writePath + 4))"
  using assms(3)
  by (simp add: create_def whenBody_eq [OF assms(1,2)] whenGroup_def eval_nat_numeral)

lemma lowerSAWritePathLoop_eq:
  assumes "\<forall>p \<in> set writePath. isAccessor p" "writePath \<noteq> []" "\<forall>k \<in> set ks. k < 2 ^ w"
  shows "lowerSAWritePathLoop writePath input sel src w ks b =
     Inr (fst b @ concat (map (\<lambda>j. whenGroup writePath input sel src w (ks ! j)
                                      (snd b + j * (length writePath + 4)))
                            [0..<length ks]),
          snd b + length ks * (length writePath + 4))"
  using assms(3)
proof (induction ks arbitrary: b)
  case Nil
  then show ?case by simp
next
  case (Cons k ks)
  have m: "map f [0..<Suc n] = f 0 # map (\<lambda>j. f (Suc j)) [0..<n]" for f :: "nat \<Rightarrow> 'a" and n
    by (simp add: upt_conv_Cons map_Suc_upt [symmetric] del: upt_Suc)
  have k: "k < 2 ^ w" and ks: "\<forall>k \<in> set ks. k < 2 ^ w" using Cons.prems by simp_all
  show ?case
    unfolding lowerSAWritePathLoop_step [OF assms(1,2) k] Cons.IH [OF ks]
    by (simp add: m algebra_simps del: upt_Suc)
qed

lemma less_power_bit_length: "n < 2 ^ bit_length n"
proof (induction n rule: bit_length.induct)
  case (1 n)
  show ?case
  proof (cases "n = 0")
    case True
    then show ?thesis by (subst bit_length.simps) simp
  next
    case False
    from "1.IH" [OF False] have "n div 2 < 2 ^ bit_length (n div 2)" .
    then have "n < 2 * 2 ^ bit_length (n div 2)" by linarith
    then show ?thesis using False by (subst bit_length.simps) simp
  qed
qed

lemma less_power_Log2_64_Ceil: "k < n \<Longrightarrow> k < 2 ^ Log2_64_Ceil n"
  using less_power_bit_length [of "n - 1"] by (auto simp: Log2_64_Ceil_def)

text \<open>
  The recreated path, accessor by accessor: the \<open>r\<close>-th has the name and the remaining
  operands of the \<open>r\<close>-th accessor of the path and reads the result of the one before (the
  leaf for the first); the value written is the result of the last.
\<close>

lemma pathClones_nth:
  assumes "\<forall>p \<in> set ps. isAccessor p" "r < length ps"
  shows "\<exists>i n vs t t'. ps ! r = Expr i n vs t
     \<and> pathClones ps leaf first ! r =
         Expr (first + r) n
           ((if r = 0 then leaf else the (getResult (pathClones ps leaf first ! (r - 1)))) # tl vs) t'"
  using assms
proof (induction ps arbitrary: leaf first r)
  case Nil
  then show ?case by simp
next
  case (Cons p ps)
  from Cons.prems(1) obtain i n vs t where p: "p = Expr i n vs t" by (cases p) auto
  show ?case
  proof (cases r)
    case 0
    then show ?thesis by (simp add: p)
  next
    case (Suc r')
    then have r': "r' < length ps" using Cons.prems(2) by simp
    have a: "\<forall>p \<in> set ps. isAccessor p" using Cons.prems(1) by simp
    from Cons.IH [OF a r', of "the (getResult (cloneOf p leaf first))" "Suc first"]
    show ?thesis by (cases r') (auto simp: Suc p)
  qed
qed

lemma pathLeaf_last:
  "pathLeaf ps leaf first =
     (if ps = [] then leaf else the (getResult (last (pathClones ps leaf first))))"
proof (induction ps arbitrary: leaf first)
  case Nil
  then show ?case by simp
next
  case (Cons p ps)
  have "pathClones ps v f = [] \<longleftrightarrow> ps = []" for v f
    using length_pathClones [of ps v f] by (metis length_0_conv)
  then show ?case using Cons.IH by simp
qed

subsection \<open>The write path\<close>

text \<open>
  The operations of a write path are accessors of the state, each defining the first
  operand of the one before, no operation occurs twice, and the last one is a dynamic
  access that \<^verbatim>\<open>isNotSubAccess\<close> does not reject: its index is not a constant, or its
  vector has no elements.
\<close>

lemma getDefiningOp_Some:
  "getDefiningOp st v = Some p \<Longrightarrow> getResult p = Some v \<and> p \<in> set (allOperations st)"
  by (auto simp: getDefiningOp_def find_Some_iff)

lemma followAccessors_props:
  "followAccessors fuel st v = Some xs \<Longrightarrow>
     (\<forall>p \<in> set xs. isAccessor p \<and> getOperands p \<noteq> [] \<and> p \<in> set (allOperations st))
     \<and> linkedFrom v xs"
proof (induction fuel arbitrary: v xs)
  case 0
  then show ?case by simp
next
  case (Suc fuel)
  show ?case
  proof (cases "getDefiningOp st v")
    case None
    then show ?thesis using Suc.prems by simp
  next
    case (Some defOp)
    show ?thesis
    proof (cases "isAccessor defOp \<and> getOperands defOp \<noteq> []")
      case True
      then obtain ys where ys: "followAccessors fuel st (hd (getOperands defOp)) = Some ys"
        and xs: "xs = defOp # ys"
        using Suc.prems Some by auto
      from Suc.IH [OF ys] getDefiningOp_Some [OF Some] True show ?thesis by (simp add: xs)
    next
      case False
      then show ?thesis using Suc.prems Some by auto
    qed
  qed
qed

lemma followAccessors_fuel:
  "followAccessors f st v = Some xs \<Longrightarrow> followAccessors g st v = Some ys \<Longrightarrow> xs = ys"
proof (induction f arbitrary: g v xs ys)
  case 0
  then show ?case by simp
next
  case (Suc f)
  then obtain g' where g: "g = Suc g'" by (cases g) auto
  show ?case
  proof (cases "getDefiningOp st v")
    case None
    then show ?thesis using Suc.prems g by simp
  next
    case (Some defOp)
    show ?thesis
    proof (cases "isAccessor defOp \<and> getOperands defOp \<noteq> []")
      case True
      then obtain xs' ys' where
        "followAccessors f st (hd (getOperands defOp)) = Some xs'" "xs = defOp # xs'"
        "followAccessors g' st (hd (getOperands defOp)) = Some ys'" "ys = defOp # ys'"
        using Suc.prems Some g by auto
      with Suc.IH show ?thesis by blast
    next
      case False
      then show ?thesis using Suc.prems Some g by auto
    qed
  qed
qed

lemma followAccessors_suffix:
  "followAccessors f st v = Some (as @ p # bs) \<Longrightarrow>
     \<exists>g w. followAccessors g st w = Some (p # bs) \<and> getResult p = Some w"
proof (induction as arbitrary: f v)
  case Nil
  then show ?case using followAccessors_props [of f st v "p # bs"] by auto
next
  case (Cons a as)
  then obtain f' where f: "f = Suc f'" by (cases f) auto
  from Cons.prems f have "followAccessors f' st (hd (getOperands a)) = Some (as @ p # bs)"
    by (auto split: option.splits if_splits)
  from Cons.IH [OF this] show ?case .
qed

lemma followAccessors_distinct:
  assumes "followAccessors f st v = Some xs"
  shows "distinct xs"
proof (rule ccontr)
  assume "\<not> distinct xs"
  then obtain as p bs cs where xs: "xs = as @ [p] @ bs @ [p] @ cs"
    using not_distinct_decomp by blast
  from followAccessors_suffix [of f st v as p "bs @ [p] @ cs"] assms xs
  obtain g w where 1: "followAccessors g st w = Some (p # bs @ [p] @ cs)" "getResult p = Some w"
    by auto
  from followAccessors_suffix [of f st v "as @ [p] @ bs" p cs] assms xs
  obtain g' w' where 2: "followAccessors g' st w' = Some (p # cs)" "getResult p = Some w'"
    by auto
  from 1 2 have "w = w'" by simp
  with followAccessors_fuel [OF 1(1)] 2(1) have "p # bs @ [p] @ cs = p # cs" by simp
  then have "length (bs @ [p] @ cs) = length cs" by simp
  then show False by simp
qed

lemma linkedFrom_append: "linkedFrom v (as @ bs) \<Longrightarrow> linkedFrom v as"
  by (induction as arbitrary: v) auto

lemma not_isNotSubAccess:
  "\<not> isNotSubAccess st p \<Longrightarrow>
     \<exists>j input sel t. p = Expr j SubaccessOp [input, sel] t
        \<and> \<not> (isConstant st sel \<and> getNumElements (getType input) \<noteq> 0)"
  by (cases "(st, p)" rule: isNotSubAccess.cases) auto

lemma getSAWritePath_props:
  assumes "getSAWritePath st operation = Some writePath"
  shows "(\<forall>p \<in> set writePath. isAccessor p \<and> getOperands p \<noteq> [] \<and> p \<in> set (allOperations st))
    \<and> linkedFrom (hd (getOperands operation)) writePath
    \<and> distinct writePath
    \<and> (writePath \<noteq> [] \<longrightarrow>
         (\<exists>j input sel t. last writePath = Expr j SubaccessOp [input, sel] t
            \<and> \<not> (isConstant st sel \<and> getNumElements (getType input) \<noteq> 0)))"
proof -
  from assms obtain xs where
    xs: "followAccessors (Suc (length (allOperations st))) st (hd (getOperands operation)) = Some xs"
    and wp: "writePath = rev (dropWhile (isNotSubAccess st) (rev xs))"
    by (auto simp: getSAWritePath_def)
  have split: "xs = writePath @ rev (takeWhile (isNotSubAccess st) (rev xs))"
    using takeWhile_dropWhile_id [of "isNotSubAccess st" "rev xs"] wp
    by (metis rev_append rev_rev_ident)
  note pr = followAccessors_props [OF xs]
  have 1: "\<forall>p \<in> set writePath. isAccessor p \<and> getOperands p \<noteq> [] \<and> p \<in> set (allOperations st)"
    using pr split by (metis Un_iff set_append)
  have 2: "linkedFrom (hd (getOperands operation)) writePath"
    using pr split linkedFrom_append by metis
  have 3: "distinct writePath"
    using followAccessors_distinct [OF xs] split by (metis distinct_append)
  have 4: "\<exists>j input sel t. last writePath = Expr j SubaccessOp [input, sel] t
            \<and> \<not> (isConstant st sel \<and> getNumElements (getType input) \<noteq> 0)"
    if "writePath \<noteq> []"
  proof -
    have ne: "dropWhile (isNotSubAccess st) (rev xs) \<noteq> []" using that wp by simp
    then have "\<not> isNotSubAccess st (hd (dropWhile (isNotSubAccess st) (rev xs)))"
      by (rule hd_dropWhile)
    moreover have "last writePath = hd (dropWhile (isNotSubAccess st) (rev xs))"
      using ne by (simp add: wp last_rev)
    ultimately show ?thesis using not_isNotSubAccess by simp
  qed
  from 1 2 3 4 show ?thesis by blast
qed

lemma lowerSAWritePath_eq:
  assumes "\<forall>p \<in> set writePath. isAccessor p" "writePath \<noteq> []"
    "last writePath = Expr j SubaccessOp [input, sel] t" "getType input = FVectorType et n"
  shows "lowerSAWritePath b (Stmt i nm [dest, src]) writePath =
     Inr (fst b @ conditionalBlocks writePath input sel src n (snd b),
          snd b + n * (length writePath + 4))"
proof -
  have bound: "\<forall>k \<in> set [0..<n]. k < 2 ^ Log2_64_Ceil n" by (simp add: less_power_Log2_64_Ceil)
  have m: "map (\<lambda>j. f ([0..<n] ! j) j) [0..<n] = map (\<lambda>k. f k k) [0..<n]"
    for f :: "nat \<Rightarrow> nat \<Rightarrow> Operation list"
    by (rule map_cong) simp_all
  from lowerSAWritePathLoop_eq [OF assms(1,2) bound, of input sel src b]
  show ?thesis
    by (simp add: lowerSAWritePath_def assms(3,4) conditionalBlocks_def
        m [of "\<lambda>k j. whenGroup writePath input sel src (Log2_64_Ceil n) k
                       (snd b + j * (length writePath + 4))"])
qed

lemma processSAPath_eq:
  assumes "getSAWritePath st (Stmt i nm [dest, src]) = Some writePath" "writePath \<noteq> []"
    "last writePath = Expr j SubaccessOp [input, sel] t" "getType input = FVectorType et n"
  shows "processSAPath st (Stmt i nm [dest, src]) =
     Inr (True, eraseDeadPath writePath
       (eraseOperands
          (st\<lparr>inserted := inserted st @ conditionalBlocks writePath input sel src n (nextId st),
               nextId := nextId st + n * (length writePath + 4)\<rparr>) i))"
proof -
  have a: "\<forall>p \<in> set writePath. isAccessor p"
    using getSAWritePath_props [OF assms(1)] by blast
  show ?thesis
    by (simp add: processSAPath_def assms(1,2) lowerSAWritePath_eq [OF a assms(2,3,4)]
        builder_def setBuilder_def)
qed

subsection \<open>Erasing the dead part of the path\<close>

lemma walk_eraseOperandsIn: "walk (eraseOperandsIn k x) = map (eraseOperandsIn k) (walk x)"
proof (induction x rule: walk.induct)
  case (1 i c thenBlock elseBlock)
  show ?case
  proof (cases elseBlock)
    case None
    then show ?thesis using 1(1) by (simp add: map_concat cong: map_cong)
  next
    case (Some es)
    then show ?thesis using 1(1) 1(2) [OF Some] by (simp add: map_concat cong: map_cong)
  qed
qed simp_all

lemma allOperations_eraseOperands:
  "allOperations (eraseOperands st k) = map (eraseOperandsIn k) (allOperations st)"
  by (simp add: allOperations_def eraseOperands_def map_concat walk_eraseOperandsIn
      flip: map_append cong: map_cong)

lemma eraseOperandsIn_props [simp]:
  "opId (eraseOperandsIn k x) = opId x"
  "isWhenOp (eraseOperandsIn k x) = isWhenOp x"
  by (cases x; simp)+

lemma eraseOperandsIn_other: "opId x \<noteq> k \<Longrightarrow> \<not> isWhenOp x \<Longrightarrow> eraseOperandsIn k x = x"
  by (cases x) simp_all

lemma eraseFrom_keeps:
  "x \<in> nested ops \<Longrightarrow> \<not> isWhenOp x \<Longrightarrow> opId x \<noteq> k
     \<Longrightarrow> \<forall>w \<in> nested ops. isWhenOp w \<longrightarrow> opId w \<noteq> k
     \<Longrightarrow> x \<in> nested (eraseFrom k ops)"
proof (induction k ops rule: eraseFrom.induct)
  case (1 k)
  then show ?case by simp
next
  case (2 k i c thenBlock elseBlock ops)
  let ?w = "WhenOp i c thenBlock elseBlock"
  have ik: "i \<noteq> k" using "2.prems"(4) by (auto simp: walk_WhenOp simp del: walk.simps)
  have sub: "\<forall>w \<in> nested thenBlock. isWhenOp w \<longrightarrow> opId w \<noteq> k"
    "\<forall>w \<in> nested ops. isWhenOp w \<longrightarrow> opId w \<noteq> k"
    "\<And>es. elseBlock = Some es \<Longrightarrow> \<forall>w \<in> nested es. isWhenOp w \<longrightarrow> opId w \<noteq> k"
    using "2.prems"(4) by (auto simp: walk_WhenOp simp del: walk.simps)
  from "2.prems"(1,2) consider (th) "x \<in> nested thenBlock"
    | (el) es where "elseBlock = Some es" "x \<in> nested es"
    | (rest) "x \<in> nested ops"
    by (cases elseBlock) (auto simp: walk_WhenOp simp del: walk.simps)
  then show ?case
  proof cases
    case th
    from "2.IH"(2) [OF ik th "2.prems"(2,3) sub(1)] show ?thesis
      using ik by (simp add: walk_WhenOp del: walk.simps)
  next
    case el
    from "2.IH"(3) [OF ik el(1) el(2) "2.prems"(2,3) sub(3) [OF el(1)]] show ?thesis
      using ik el(1) by (simp add: walk_WhenOp del: walk.simps)
  next
    case rest
    from "2.IH"(4) [OF ik rest "2.prems"(2,3) sub(2)] show ?thesis
      using ik by (simp add: walk_WhenOp del: walk.simps)
  qed
qed (auto split: if_splits)

lemma eraseFrom_kind:
  "x \<in> nested (eraseFrom k ops) \<Longrightarrow>
     \<exists>y \<in> nested ops. opId x = opId y \<and> isWhenOp x = isWhenOp y"
proof (induction k ops arbitrary: x rule: eraseFrom.induct)
  case (1 k)
  then show ?case by simp
next
  case (2 k i c thenBlock elseBlock ops)
  show ?case
  proof (cases "i = k")
    case True
    then have "x \<in> nested (eraseFrom k ops)" using "2.prems" by simp
    from "2.IH"(1) [OF True this] show ?thesis by auto
  next
    case False
    let ?w = "WhenOp i c (eraseFrom k thenBlock) (map_option (eraseFrom k) elseBlock)"
    from "2.prems" False have "x \<in> set (walk ?w) \<or> x \<in> nested (eraseFrom k ops)"
      by simp
    then consider (self) "x = ?w" | (th) "x \<in> nested (eraseFrom k thenBlock)"
      | (el) es where "elseBlock = Some es" "x \<in> nested (eraseFrom k es)"
      | (rest) "x \<in> nested (eraseFrom k ops)"
      by (cases elseBlock) (auto simp: walk_WhenOp simp del: walk.simps)
    then show ?thesis
    proof cases
      case self
      then show ?thesis by (auto simp: walk_WhenOp simp del: walk.simps)
    next
      case th
      from "2.IH"(2) [OF False th] show ?thesis
        by (auto simp: walk_WhenOp simp del: walk.simps)
    next
      case el
      from "2.IH"(3) [OF False _ el(2)] el(1) show ?thesis
        by (auto simp: walk_WhenOp simp del: walk.simps)
    next
      case rest
      from "2.IH"(4) [OF False rest] show ?thesis by auto
    qed
  qed
qed (auto split: if_splits)

lemma erase_op_keeps:
  assumes "x \<in> set (allOperations s)" "\<not> isWhenOp x" "opId x \<noteq> k"
    "\<forall>w \<in> set (allOperations s). isWhenOp w \<longrightarrow> opId w \<noteq> k"
  shows "x \<in> set (allOperations (erase_op s k))"
  using assms eraseFrom_keeps [of x "body s" k] eraseFrom_keeps [of x "inserted s" k]
  by (auto simp: allOperations_nested erase_op_def)

lemma erase_op_kind:
  assumes "x \<in> set (allOperations (erase_op s k))"
  shows "\<exists>y \<in> set (allOperations s). opId x = opId y \<and> isWhenOp x = isWhenOp y"
  using assms eraseFrom_kind [of x k "body s"] eraseFrom_kind [of x k "inserted s"]
  by (auto simp: allOperations_nested erase_op_def)

lemma eraseDeadPath_ids:
  "x \<in> set (allOperations (eraseDeadPath ps s)) \<Longrightarrow> opId x \<in> opId ` set (allOperations s)"
proof (induction ps arbitrary: s)
  case Nil
  then show ?case by simp
next
  case (Cons p ps)
  show ?case
  proof (cases "case getResult p of Some v \<Rightarrow> use_empty s v | None \<Rightarrow> True")
    case True
    then have "opId x \<in> opId ` set (allOperations (erase_op s (opId p)))"
      using Cons.IH [of "erase_op s (opId p)"] Cons.prems by simp
    then show ?thesis using allOperations_erase_op by force
  next
    case False
    then show ?thesis using Cons.prems by simp
  qed
qed

lemma linkedFrom_user:
  "linkedFrom v (p # ps) \<Longrightarrow> q \<in> set ps \<Longrightarrow>
     \<exists>u \<in> set (p # ps). getResult q = Some (hd (getOperands u))"
proof (induction ps arbitrary: p v)
  case Nil
  then show ?case by simp
next
  case (Cons a ps)
  show ?case
  proof (cases "q = a")
    case True
    then show ?thesis using Cons.prems(1) by auto
  next
    case False
    then have "q \<in> set ps" using Cons.prems(2) by simp
    from Cons.IH [OF _ this, of "hd (getOperands p)" a] Cons.prems(1) show ?thesis by auto
  qed
qed

lemma use_empty_iff:
  "use_empty s v \<longleftrightarrow> (\<forall>x \<in> set (allOperations s). v \<notin> set (getOperands x))"
  by (auto simp: use_empty_def getUsers_def filter_empty_conv)

lemma eraseDeadPath_dead:
  assumes "\<forall>p \<in> set ps. p \<in> set (allOperations s) \<and> isAccessor p \<and> getOperands p \<noteq> []"
    "\<forall>w \<in> set (allOperations s). isWhenOp w \<longrightarrow> opId w \<notin> opId ` set ps"
    "distinct (map opId ps)" "linkedFrom v ps"
  shows "\<forall>p \<in> set ps. opId p \<in> opId ` set (allOperations (eraseDeadPath ps s))
           \<longrightarrow> \<not> use_empty (eraseDeadPath ps s) (the (getResult p))"
  using assms
proof (induction ps arbitrary: s v)
  case Nil
  then show ?case by simp
next
  case (Cons p ps)
  have acc: "isAccessor p" using Cons.prems(1) by simp
  then obtain r where r: "getResult p = Some r" by (cases p) auto
  have nw: "\<not> isWhenOp q" if "q \<in> set (p # ps)" for q
    using Cons.prems(1) that by (cases q) auto
  show ?case
  proof (cases "use_empty s r")
    case True
    let ?s = "erase_op s (opId p)"
    have fin: "eraseDeadPath (p # ps) s = eraseDeadPath ps ?s" using True r by simp
    have 1: "\<forall>q \<in> set ps. q \<in> set (allOperations ?s) \<and> isAccessor q \<and> getOperands q \<noteq> []"
    proof
      fix q assume q: "q \<in> set ps"
      then have "opId q \<noteq> opId p" using Cons.prems(3) by (metis distinct.simps(2) image_eqI list.simps(9) set_map)
      moreover have "\<forall>w \<in> set (allOperations s). isWhenOp w \<longrightarrow> opId w \<noteq> opId p"
        using Cons.prems(2) by auto
      moreover have "q \<in> set (allOperations s)" using Cons.prems(1) q by simp
      ultimately have "q \<in> set (allOperations ?s)" using erase_op_keeps nw q by simp
      then show "q \<in> set (allOperations ?s) \<and> isAccessor q \<and> getOperands q \<noteq> []"
        using Cons.prems(1) q by simp
    qed
    have 2: "\<forall>w \<in> set (allOperations ?s). isWhenOp w \<longrightarrow> opId w \<notin> opId ` set ps"
    proof (intro ballI impI)
      fix w assume w: "w \<in> set (allOperations ?s)" "isWhenOp w"
      from erase_op_kind [OF w(1)] w(2) obtain y where
        "y \<in> set (allOperations s)" "opId w = opId y" "isWhenOp y" by auto
      then show "opId w \<notin> opId ` set ps" using Cons.prems(2) by auto
    qed
    have 3: "distinct (map opId ps)" using Cons.prems(3) by simp
    have 4: "linkedFrom (hd (getOperands p)) ps" using Cons.prems(4) by simp
    note IH = Cons.IH [OF 1 2 3 4]
    have "opId p \<notin> opId ` set (allOperations (eraseDeadPath ps ?s))"
    proof
      assume "opId p \<in> opId ` set (allOperations (eraseDeadPath ps ?s))"
      then obtain x where "x \<in> set (allOperations (eraseDeadPath ps ?s))" "opId x = opId p"
        by auto
      with eraseDeadPath_ids [of x ps ?s] obtain y where
        "y \<in> set (allOperations ?s)" "opId y = opId p" by auto
      with allOperations_erase_op [of y s "opId p"] show False by simp
    qed
    with IH show ?thesis unfolding fin by simp
  next
    case False
    then have fin: "eraseDeadPath (p # ps) s = s" using r by simp
    have "\<not> use_empty s (the (getResult q))" if q: "q \<in> set ps" for q
    proof -
      from linkedFrom_user [OF Cons.prems(4) q] obtain u where
        u: "u \<in> set (p # ps)" "getResult q = Some (hd (getOperands u))" by auto
      then have "u \<in> set (allOperations s)" "getOperands u \<noteq> []" using Cons.prems(1) by auto
      then have "u \<in> set (allOperations s)" "hd (getOperands u) \<in> set (getOperands u)"
        by simp_all
      then show ?thesis unfolding use_empty_iff u(2) by auto
    qed
    then show ?thesis unfolding fin using False r by simp
  qed
qed

lemma pathClones_ids:
  "\<forall>p \<in> set ps. isAccessor p \<Longrightarrow> x \<in> nested (pathClones ps leaf first) \<Longrightarrow> first \<le> opId x"
proof (induction ps arbitrary: leaf first)
  case Nil
  then show ?case by simp
next
  case (Cons p ps)
  from Cons.prems(1) obtain i n vs t where p: "p = Expr i n vs t" by (cases p) auto
  have a: "\<forall>p \<in> set ps. isAccessor p" using Cons.prems(1) by simp
  from Cons.prems(2) consider "x = cloneOf p leaf first"
    | "x \<in> nested (pathClones ps (the (getResult (cloneOf p leaf first))) (Suc first))"
    by (auto simp: p)
  then show ?case
  proof cases
    case 1
    then show ?thesis by (simp add: p)
  next
    case 2
    from Cons.IH [OF a 2] show ?thesis by simp
  qed
qed

lemma writeBlock_ids:
  assumes "\<forall>p \<in> set writePath. isAccessor p" "x \<in> nested (writeBlock writePath input src k first)"
  shows "first \<le> opId x"
proof -
  have a: "\<forall>p \<in> set (rev (butlast writePath)). isAccessor p"
    using assms(1) by (auto dest: in_set_butlastD)
  from assms(2) consider "opId x = first" | "opId x = first + length writePath"
    | "x \<in> nested (pathClones (rev (butlast writePath))
                      (Value first (getElementType (getType input))) (Suc first))"
    by (auto simp: writeBlock_def)
  then show ?thesis
  proof cases
    case 3
    from pathClones_ids [OF a 3] show ?thesis by simp
  qed simp_all
qed

lemma whenGroup_ids:
  assumes "\<forall>p \<in> set writePath. isAccessor p"
    "x \<in> nested (whenGroup writePath input sel src w k first)"
  shows "first \<le> opId x"
proof -
  from assms(2) consider "opId x = first" | "opId x = Suc first" | "opId x = first + 2"
    | "x \<in> nested (writeBlock writePath input src k (first + 3))"
    by (auto simp: whenGroup_def walk_WhenOp simp del: walk.simps(1))
  then show ?thesis
  proof cases
    case 4
    from writeBlock_ids [OF assms(1) 4] show ?thesis by simp
  qed simp_all
qed

lemma nested_concat: "nested (concat xss) = (\<Union>xs \<in> set xss. nested xs)"
  by (induction xss) simp_all

lemma conditionalBlocks_ids:
  assumes "\<forall>p \<in> set writePath. isAccessor p"
    "x \<in> nested (conditionalBlocks writePath input sel src n first)"
  shows "first \<le> opId x"
proof -
  from assms(2) obtain k where
    "x \<in> nested (whenGroup writePath input sel src (Log2_64_Ceil n) k
                    (first + k * (length writePath + 4)))"
    by (auto simp: conditionalBlocks_def nested_concat)
  from whenGroup_ids [OF assms(1) this] show ?thesis by simp
qed

lemma processSAPath_dead:
  assumes wp: "getSAWritePath st (Stmt i nm [dest, src]) = Some writePath"
    and wf: "wellFormed st" and mem: "Stmt i nm [dest, src] \<in> set (allOperations st)"
    and blocks: "\<forall>x \<in> nested blocks. nextId st \<le> opId x"
  shows "\<forall>p \<in> set writePath.
      opId p \<in> opId ` set (allOperations
         (eraseDeadPath writePath
            (eraseOperands (st\<lparr>inserted := inserted st @ blocks, nextId := next\<rparr>) i)))
      \<longrightarrow> \<not> use_empty (eraseDeadPath writePath
            (eraseOperands (st\<lparr>inserted := inserted st @ blocks, nextId := next\<rparr>) i))
            (the (getResult p))"
proof -
  let ?st0 = "st\<lparr>inserted := inserted st @ blocks, nextId := next\<rparr>"
  let ?st1 = "eraseOperands ?st0 i"
  note pr = getSAWritePath_props [OF wp]
  have inj: "inj_on opId (set (allOperations st))"
    using wf by (simp add: wellFormed_def distinct_map)
  have lt: "\<forall>x \<in> set (allOperations st). opId x < nextId st"
    using wf by (simp add: wellFormed_def list_all_iff)
  have all0: "set (allOperations ?st0) = set (allOperations st) \<union> nested blocks"
    by (auto simp: allOperations_nested)
  have all1: "set (allOperations ?st1) = eraseOperandsIn i ` set (allOperations ?st0)"
    by (simp add: allOperations_eraseOperands)
  have nw: "\<not> isWhenOp p" if "p \<in> set writePath" for p
    using pr that by (cases p) auto
  have 1: "\<forall>p \<in> set writePath. p \<in> set (allOperations ?st1) \<and> isAccessor p \<and> getOperands p \<noteq> []"
  proof
    fix p assume p: "p \<in> set writePath"
    then have m: "p \<in> set (allOperations st)" and acc: "isAccessor p" using pr by auto
    have "p \<noteq> Stmt i nm [dest, src]" using acc by auto
    then have "opId p \<noteq> i" using inj_onD [OF inj _ m mem] by auto
    then have "eraseOperandsIn i p = p" using nw [OF p] by (rule eraseOperandsIn_other)
    moreover have "p \<in> set (allOperations ?st0)" using m all0 by simp
    ultimately have "p \<in> set (allOperations ?st1)" unfolding all1 by force
    then show "p \<in> set (allOperations ?st1) \<and> isAccessor p \<and> getOperands p \<noteq> []"
      using pr p by simp
  qed
  have 2: "\<forall>w \<in> set (allOperations ?st1). isWhenOp w \<longrightarrow> opId w \<notin> opId ` set writePath"
  proof (intro ballI impI)
    fix w assume w: "w \<in> set (allOperations ?st1)" "isWhenOp w"
    then obtain y where y: "y \<in> set (allOperations ?st0)" "opId w = opId y" "isWhenOp y"
      unfolding all1 by auto
    show "opId w \<notin> opId ` set writePath"
    proof
      assume "opId w \<in> opId ` set writePath"
      then obtain p where p: "p \<in> set writePath" "opId p = opId y" using y(2) by auto
      then have m: "p \<in> set (allOperations st)" using pr by simp
      from y(1) all0 consider "y \<in> set (allOperations st)" | "y \<in> nested blocks" by auto
      then show False
      proof cases
        case 1
        from inj_onD [OF inj p(2) m 1] have "p = y" .
        then show False using nw [OF p(1)] y(3) by simp
      next
        case 2
        then have "nextId st \<le> opId y" using blocks by simp
        moreover have "opId p < nextId st" using lt m by simp
        ultimately show False using p(2) by simp
      qed
    qed
  qed
  have 3: "distinct (map opId writePath)"
  proof -
    have "distinct writePath" using pr by simp
    moreover have "inj_on opId (set writePath)"
      using inj pr by (meson inj_on_subset subsetI)
    ultimately show ?thesis by (simp add: distinct_map)
  qed
  have 4: "linkedFrom (hd (getOperands (Stmt i nm [dest, src]))) writePath" using pr by simp
  from eraseDeadPath_dead [OF 1 2 3 4] show ?thesis .
qed

subsection \<open>The claim\<close>

text \<open>
  C6, as stated, fails when the destination leads to more than one dynamic access: the
  expansion is over the one farthest from the connect, not over the one that the
  destination reaches first.  In \<open>w[i][j] <= src\<close>, with \<open>w\<close> a vector of 3 vectors of 2
  elements, the destination is defined by the dynamic access \<open>[j]\<close> into a vector of 2
  elements; the visit emits 3 conditional blocks, guarded by the comparisons of \<open>i\<close> with
  0, 1 and 2, each holding the static access to an element of \<open>w\<close>, the dynamic access
  \<open>[j]\<close> created again on it, and the connect.
\<close>

theorem dynamic_write_not_nearest:
  "(let U = UIntType (Some 1);
        I = UIntType (Some 2);
        V = FVectorType U 2;
        T = FVectorType V 3;
        outer = Expr 4 SubaccessOp [Value 0 T, Value 1 I] V;
        inner = Expr 5 SubaccessOp [Value 4 V, Value 2 U] U;
        c = Stmt 6 ConnectOp [Value 5 U, Value 3 U];
        st = \<lparr>body = [outer, inner, c], inserted = [], nextId = 7\<rparr>
    in getDefiningOp st (Value 5 U) = Some inner
       \<and> \<not> isNotSubAccess st inner
       \<and> getNumElements (getType (Value 4 V)) = 2
       \<and> visitStmt st c =
           Inr (True,
             \<lparr>body = [Stmt 6 ConnectOp []],
              inserted =
                [Expr 7 (ConstantOp 0) [] I,
                 Expr 8 EQPrimOp [Value 1 I, Value 7 I] U,
                 WhenOp 9 (Value 8 U)
                   [Expr 10 (SubindexOp 0) [Value 0 T] V,
                    Expr 11 SubaccessOp [Value 10 V, Value 2 U] U,
                    Stmt 12 ConnectOp [Value 11 U, Value 3 U]] None,
                 Expr 13 (ConstantOp 1) [] I,
                 Expr 14 EQPrimOp [Value 1 I, Value 13 I] U,
                 WhenOp 15 (Value 14 U)
                   [Expr 16 (SubindexOp 1) [Value 0 T] V,
                    Expr 17 SubaccessOp [Value 16 V, Value 2 U] U,
                    Stmt 18 ConnectOp [Value 17 U, Value 3 U]] None,
                 Expr 19 (ConstantOp 2) [] I,
                 Expr 20 EQPrimOp [Value 1 I, Value 19 I] U,
                 WhenOp 21 (Value 20 U)
                   [Expr 22 (SubindexOp 2) [Value 0 T] V,
                    Expr 23 SubaccessOp [Value 22 V, Value 2 U] U,
                    Stmt 24 ConnectOp [Value 23 U, Value 3 U]] None],
              nextId = 25\<rparr>))"
proof -
  have lg: "Log2_64_Ceil 3 = 2"
    by (simp add: Log2_64_Ceil_def bit_length.simps [of 2] bit_length.simps [of "Suc 0"]
        bit_length.simps [of 0])
  have l: "[0..<3] = [0, 1, 2]" by (simp add: upt_rec)
  show ?thesis
    unfolding Let_def
    by (simp add: visitStmt_def processSAPath_def getSAWritePath_def allOperations_def
        getDefiningOp_def isConstant_def lowerSAWritePath_def lg l create_def whenBody_def
        emitConnect_def createStmt_def builder_def setBuilder_def getElementType_def
        eraseOperands_def use_empty_def getUsers_def erase_op_def)
qed

text \<open>
  C6, amended.  For a connect whose write path is not empty, let the last operation of
  the path, the dynamic access farthest from the connect, read the vector \<open>input\<close> of \<open>n\<close>
  elements at the index \<open>sel\<close>.  The visit asks for the connect to be erased and leaves
  the state \<open>expandedWrite\<close>: inserted before the connect are exactly \<open>n\<close> groups, the \<open>k\<close>-th
  being the constant \<open>k\<close>, the comparison of \<open>sel\<close> with it, and a block conditional on the
  comparison that holds the static access to element \<open>k\<close> of \<open>input\<close>, the other accessors
  of the path created again from there towards the connect, and one connect of the source
  to the end of that path; the operands of the original connect are dropped.  In a well
  formed state that holds the connect, every accessor of the path whose result has no
  use afterwards has been erased.
\<close>

theorem dynamic_write_expansion:
  assumes "getSAWritePath st (Stmt i nm [dest, src]) = Some writePath" "writePath \<noteq> []"
    "last writePath = Expr j SubaccessOp [input, sel] t" "getType input = FVectorType et n"
  shows "visitStmt st (Stmt i nm [dest, src]) =
           Inr (True, expandedWrite st i writePath input sel src n)
    \<and> (wellFormed st \<and> Stmt i nm [dest, src] \<in> set (allOperations st) \<longrightarrow>
         (\<forall>p \<in> set writePath.
            use_empty (expandedWrite st i writePath input sel src n) (the (getResult p)) \<longrightarrow>
            opId p \<notin> opId ` set (allOperations (expandedWrite st i writePath input sel src n))))"
proof -
  have v: "visitStmt st (Stmt i nm [dest, src]) =
           Inr (True, expandedWrite st i writePath input sel src n)"
    by (simp add: visitStmt_def processSAPath_eq [OF assms] expandedWrite_def)
  have a: "\<forall>p \<in> set writePath. isAccessor p"
    using getSAWritePath_props [OF assms(1)] by blast
  have b: "\<forall>x \<in> nested (conditionalBlocks writePath input sel src n (nextId st)).
             nextId st \<le> opId x"
    using conditionalBlocks_ids [OF a] by blast
  have d: "\<forall>p \<in> set writePath.
            use_empty (expandedWrite st i writePath input sel src n) (the (getResult p)) \<longrightarrow>
            opId p \<notin> opId ` set (allOperations (expandedWrite st i writePath input sel src n))"
    if "wellFormed st" "Stmt i nm [dest, src] \<in> set (allOperations st)"
    using processSAPath_dead [OF assms(1) that b] unfolding expandedWrite_def by blast
  from v d show ?thesis by blast
qed

theorem dynamic_write_expansion_witness:
  "(let B = BundleType [BundleElement ''a'' False (UIntType (Some 1))];
        T = FVectorType B 2;
        U = UIntType (Some 1);
        sao = Expr 3 SubaccessOp [Value 0 T, Value 1 U] B;
        sf = Expr 4 (SubfieldOp 0) [Value 3 B] U;
        c = Stmt 5 ConnectOp [Value 4 U, Value 2 U];
        st = \<lparr>body = [sao, sf, c], inserted = [], nextId = 6\<rparr>;
        st' = \<lparr>body = [Stmt 5 ConnectOp []],
               inserted =
                 [Expr 6 (ConstantOp 0) [] U,
                  Expr 7 EQPrimOp [Value 1 U, Value 6 U] U,
                  WhenOp 8 (Value 7 U)
                    [Expr 9 (SubindexOp 0) [Value 0 T] B,
                     Expr 10 (SubfieldOp 0) [Value 9 B] U,
                     Stmt 11 ConnectOp [Value 10 U, Value 2 U]] None,
                  Expr 12 (ConstantOp 1) [] U,
                  Expr 13 EQPrimOp [Value 1 U, Value 12 U] U,
                  WhenOp 14 (Value 13 U)
                    [Expr 15 (SubindexOp 1) [Value 0 T] B,
                     Expr 16 (SubfieldOp 0) [Value 15 B] U,
                     Stmt 17 ConnectOp [Value 16 U, Value 2 U]] None],
               nextId = 18\<rparr>
    in getSAWritePath st c = Some [sf, sao]
       \<and> wellFormed st \<and> c \<in> set (allOperations st)
       \<and> visitStmt st c = Inr (True, st')
       \<and> expandedWrite st 5 [sf, sao] (Value 0 T) (Value 1 U) (Value 2 U) 2 = st'
       \<and> use_empty st' (Value 4 U) \<and> use_empty st' (Value 3 B)
       \<and> 4 \<notin> opId ` set (allOperations st') \<and> 3 \<notin> opId ` set (allOperations st'))"
proof -
  let ?B = "BundleType [BundleElement ''a'' False (UIntType (Some 1))]"
  let ?T = "FVectorType ?B 2"
  let ?U = "UIntType (Some 1)"
  let ?sao = "Expr 3 SubaccessOp [Value 0 ?T, Value 1 ?U] ?B"
  let ?sf = "Expr 4 (SubfieldOp 0) [Value 3 ?B] ?U"
  let ?c = "Stmt 5 ConnectOp [Value 4 ?U, Value 2 ?U]"
  let ?st = "\<lparr>body = [?sao, ?sf, ?c], inserted = [], nextId = 6\<rparr>"
  let ?st' = "\<lparr>body = [Stmt 5 ConnectOp []],
               inserted =
                 [Expr 6 (ConstantOp 0) [] ?U,
                  Expr 7 EQPrimOp [Value 1 ?U, Value 6 ?U] ?U,
                  WhenOp 8 (Value 7 ?U)
                    [Expr 9 (SubindexOp 0) [Value 0 ?T] ?B,
                     Expr 10 (SubfieldOp 0) [Value 9 ?B] ?U,
                     Stmt 11 ConnectOp [Value 10 ?U, Value 2 ?U]] None,
                  Expr 12 (ConstantOp 1) [] ?U,
                  Expr 13 EQPrimOp [Value 1 ?U, Value 12 ?U] ?U,
                  WhenOp 14 (Value 13 ?U)
                    [Expr 15 (SubindexOp 1) [Value 0 ?T] ?B,
                     Expr 16 (SubfieldOp 0) [Value 15 ?B] ?U,
                     Stmt 17 ConnectOp [Value 16 ?U, Value 2 ?U]] None],
               nextId = 18\<rparr>"
  have all: "allOperations ?st = [?sao, ?sf, ?c]" by (simp add: allOperations_def)
  have h1: "getSAWritePath ?st ?c = Some [?sf, ?sao]"
    by (simp add: getSAWritePath_def allOperations_def getDefiningOp_def isConstant_def)
  have h2: "[?sf, ?sao] \<noteq> []" by simp
  have h3: "last [?sf, ?sao] = ?sao" by simp
  have h4: "getType (Value 0 ?T) = FVectorType ?B 2" by simp
  have wf: "wellFormed ?st" by (simp add: wellFormed_def allOperations_def)
  have mem: "?c \<in> set (allOperations ?st)" by (simp add: allOperations_def)
  note th = dynamic_write_expansion [OF h1 h2 h3 h4]
  have l: "[0..<2] = [0, 1]" by (simp add: upt_rec)
  have lg: "Log2_64_Ceil 2 = 1"
    by (simp add: Log2_64_Ceil_def bit_length.simps [of "Suc 0"] bit_length.simps [of 0])
  have ex: "expandedWrite ?st 5 [?sf, ?sao] (Value 0 ?T) (Value 1 ?U) (Value 2 ?U) 2 = ?st'"
    by (simp add: expandedWrite_def conditionalBlocks_def l lg whenGroup_def writeBlock_def
        eraseOperands_def use_empty_def getUsers_def allOperations_def erase_op_def
        getElementType_def subfieldType_def)
  have v: "visitStmt ?st ?c = Inr (True, ?st')" using th [THEN conjunct1] ex by simp
  have all': "allOperations ?st' =
     [Stmt 5 ConnectOp [],
      Expr 6 (ConstantOp 0) [] ?U,
      Expr 7 EQPrimOp [Value 1 ?U, Value 6 ?U] ?U,
      WhenOp 8 (Value 7 ?U)
        [Expr 9 (SubindexOp 0) [Value 0 ?T] ?B,
         Expr 10 (SubfieldOp 0) [Value 9 ?B] ?U,
         Stmt 11 ConnectOp [Value 10 ?U, Value 2 ?U]] None,
      Expr 9 (SubindexOp 0) [Value 0 ?T] ?B,
      Expr 10 (SubfieldOp 0) [Value 9 ?B] ?U,
      Stmt 11 ConnectOp [Value 10 ?U, Value 2 ?U],
      Expr 12 (ConstantOp 1) [] ?U,
      Expr 13 EQPrimOp [Value 1 ?U, Value 12 ?U] ?U,
      WhenOp 14 (Value 13 ?U)
        [Expr 15 (SubindexOp 1) [Value 0 ?T] ?B,
         Expr 16 (SubfieldOp 0) [Value 15 ?B] ?U,
         Stmt 17 ConnectOp [Value 16 ?U, Value 2 ?U]] None,
      Expr 15 (SubindexOp 1) [Value 0 ?T] ?B,
      Expr 16 (SubfieldOp 0) [Value 15 ?B] ?U,
      Stmt 17 ConnectOp [Value 16 ?U, Value 2 ?U]]"
    by (simp add: allOperations_def)
  have u: "use_empty ?st' (Value 4 ?U)" "use_empty ?st' (Value 3 ?B)"
    by (simp_all add: use_empty_def getUsers_def allOperations_def)
  from th [THEN conjunct2, THEN mp, OF conjI [OF wf mem]]
  have d: "\<forall>p \<in> set [?sf, ?sao]. use_empty ?st' (the (getResult p)) \<longrightarrow>
             opId p \<notin> opId ` set (allOperations ?st')"
    unfolding ex .
  have d4: "4 \<notin> opId ` set (allOperations ?st')"
    using d [THEN bspec, of ?sf] u(1) by simp
  have d3: "3 \<notin> opId ` set (allOperations ?st')"
    using d [THEN bspec, of ?sao] u(2) by simp
  show ?thesis
    unfolding Let_def
    by (intro conjI h1 wf mem v ex u d4 d3)
qed

section \<open>Properties of the rewiring of users\<close>








lemma replaceUsesIn_props [simp]:
  "opId (replaceUsesIn old new x) = opId x"
  "getResult (replaceUsesIn old new x) = getResult x"
  "isWhenOp (replaceUsesIn old new x) = isWhenOp x"
  by (cases x; simp)+



















end
